theory Spec2Isabelle
  imports Complex_Main "HOL-Library.Product_Lexorder"
begin

section \<open>Gearbox data model\<close>

text \<open>
  The gearbox module keeps its tools in a module-scoped array. A \<open>Tool\<close> has a
  type tag, an id, a list of named connections, a parameter object and a per-gear-mode
  status object. JavaScript numbers are modelled as exact reals; a property that is
  absent from an object (or holds no number) is \<open>None\<close>.
\<close>

record connection =
  name :: string
  axleId :: "nat option"

record tool_status =
  error :: "string option"
  flagged :: bool

record tool_params =
  teethA :: "real option"
  teethB :: "real option"
  invertDirection :: "bool option"
  mode :: "nat \<Rightarrow> string option"

record tool =
  tool_type :: string
  tool_id :: string
  connections :: "connection list"
  params :: tool_params
  status :: "nat \<rightharpoonup> tool_status"

text \<open>An entry of the per-mode map \<open>axleValues\<close>, and an output an evaluator returns.\<close>

record axle_value =
  speed :: real
  torque :: real
  outputBy :: string

record tool_output =
  out_axleId :: nat
  out_speed :: real
  out_torque :: real

type_synonym axle_values = "nat \<rightharpoonup> axle_value"

text \<open>
  The object an evaluator returns has at most one of the properties \<open>error\<close>,
  \<open>flagged\<close>, \<open>output\<close>, \<open>outputs\<close>.
\<close>

record eval_result =
  res_error :: "string option"
  res_flagged :: "bool option"
  res_output :: "tool_output option"
  res_outputs :: "tool_output list option"

definition flaggedResult :: eval_result where
  "flaggedResult =
     \<lparr>res_error = None, res_flagged = Some True, res_output = None, res_outputs = None\<rparr>"

definition errorResult :: "string \<Rightarrow> eval_result" where
  "errorResult msg =
     \<lparr>res_error = Some msg, res_flagged = None, res_output = None, res_outputs = None\<rparr>"

definition outputResult :: "tool_output \<Rightarrow> eval_result" where
  "outputResult out =
     \<lparr>res_error = None, res_flagged = None, res_output = Some out, res_outputs = None\<rparr>"

definition outputsResult :: "tool_output list \<Rightarrow> eval_result" where
  "outputsResult outs =
     \<lparr>res_error = None, res_flagged = None, res_output = None, res_outputs = Some outs\<rparr>"

section \<open>Evaluators\<close>

text \<open>\<open>tool.connections.find(c => c.name === n)\<close>\<close>

definition findConn :: "string \<Rightarrow> tool \<Rightarrow> connection option" where
  "findConn n t = find (\<lambda>c. name c = n) (connections t)"

text \<open>
  \<open>conn.axleId !== null && axleValues.has(conn.axleId) &&
  axleValues.get(conn.axleId).outputBy !== tool.id\<close>: the axle carries a value
  produced by another tool.
\<close>

definition hasInput :: "tool \<Rightarrow> connection \<Rightarrow> axle_values \<Rightarrow> bool" where
  "hasInput t c av =
     (case axleId c of
        None \<Rightarrow> False
      | Some a \<Rightarrow> (case av a of None \<Rightarrow> False | Some v \<Rightarrow> outputBy v \<noteq> tool_id t))"

text \<open>\<open>axleValues.get(conn.axleId)\<close>\<close>

definition getValue :: "axle_values \<Rightarrow> connection \<Rightarrow> axle_value option" where
  "getValue av c = (case axleId c of None \<Rightarrow> None | Some a \<Rightarrow> av a)"

text \<open>\<open>tool.params.teethA || 16\<close>: a missing or zero number reads as the default.\<close>

definition numberOr :: "real option \<Rightarrow> real \<Rightarrow> real" where
  "numberOr v d = (case v of None \<Rightarrow> d | Some x \<Rightarrow> if x = 0 then d else x)"

text \<open>
  \<open>evaluateCoupling\<close>. The branch for a missing input value is not reached: the
  input connection is one for which \<open>hasInput\<close> holds (lemma \<open>hasInput_getValue\<close>).
\<close>

definition evaluateCoupling :: "tool \<Rightarrow> nat \<Rightarrow> axle_values \<Rightarrow> eval_result" where
  "evaluateCoupling t gearModeNum av =
     (case (findConn ''Gear A'' t, findConn ''Gear B'' t) of
        (Some connA, Some connB) \<Rightarrow>
          (let tA = numberOr (teethA (params t)) 16;
               tB = numberOr (teethB (params t)) 16;
               hasInputA = hasInput t connA av;
               hasInputB = hasInput t connB av
           in if hasInputA \<and> hasInputB then errorResult ''Conflicting outputs''
              else if \<not> hasInputA \<and> \<not> hasInputB then flaggedResult
              else
                (let (inputConn, outputConn, inputTeeth, outputTeeth) =
                       (if hasInputA then (connA, connB, tA, tB) else (connB, connA, tB, tA))
                 in case axleId outputConn of
                      None \<Rightarrow> flaggedResult
                    | Some outAxle \<Rightarrow>
                        (case getValue av inputConn of
                           None \<Rightarrow> flaggedResult
                         | Some input \<Rightarrow>
                             (let invertD = (case invertDirection (params t) of
                                           None \<Rightarrow> True | Some b \<Rightarrow> b);
                                  directionMultiplier = (if invertD then - 1 else 1)
                              in outputResult
                                   \<lparr>out_axleId = outAxle,
                                    out_speed = directionMultiplier * speed input
                                                  * (inputTeeth / outputTeeth),
                                    out_torque = torque input
                                                  * (outputTeeth / inputTeeth)\<rparr>))))
      | _ \<Rightarrow> flaggedResult)"

text \<open>\<open>evaluateDifferential\<close>\<close>

definition evaluateDifferential :: "tool \<Rightarrow> nat \<Rightarrow> axle_values \<Rightarrow> eval_result" where
  "evaluateDifferential t gearModeNum av =
     (case (findConn ''Body'' t, findConn ''A'' t, findConn ''B'' t) of
        (Some connBody, Some connA, Some connB) \<Rightarrow>
          (let hasBodyInput = hasInput t connBody av;
               hasAInput = hasInput t connA av;
               hasBInput = hasInput t connB av;
               inputCount = (if hasBodyInput then 1 else 0) + (if hasAInput then 1 else 0)
                              + (if hasBInput then (1::nat) else 0)
           in if inputCount = 0 \<or> inputCount = 1 then flaggedResult
              else if inputCount = 3 then errorResult ''Conflicting outputs''
              else if \<not> hasBodyInput then
                (case (getValue av connA, getValue av connB) of
                   (Some inputA, Some inputB) \<Rightarrow>
                     (case axleId connBody of
                        None \<Rightarrow> flaggedResult
                      | Some outAxle \<Rightarrow>
                          outputResult
                            \<lparr>out_axleId = outAxle,
                             out_speed = (speed inputA + speed inputB) / 2,
                             out_torque = 2 * (torque inputA + torque inputB)\<rparr>)
                 | _ \<Rightarrow> flaggedResult)
              else if \<not> hasAInput then
                (case (getValue av connBody, getValue av connB) of
                   (Some bodyInput, Some bInput) \<Rightarrow>
                     (case axleId connA of
                        None \<Rightarrow> flaggedResult
                      | Some outAxle \<Rightarrow>
                          outputResult
                            \<lparr>out_axleId = outAxle,
                             out_speed = 2 * speed bodyInput - speed bInput,
                             out_torque = (torque bodyInput + torque bInput) / 2\<rparr>)
                 | _ \<Rightarrow> flaggedResult)
              else
                (case (getValue av connBody, getValue av connA) of
                   (Some bodyInput, Some aInput) \<Rightarrow>
                     (case axleId connB of
                        None \<Rightarrow> flaggedResult
                      | Some outAxle \<Rightarrow>
                          outputResult
                            \<lparr>out_axleId = outAxle,
                             out_speed = 2 * speed bodyInput - speed aInput,
                             out_torque = (torque bodyInput + torque aInput) / 2\<rparr>)
                 | _ \<Rightarrow> flaggedResult))
      | _ \<Rightarrow> flaggedResult)"

text \<open>\<open>tool.params[`mode${gearModeNum}`] || 'Locked'\<close>: a missing or empty string reads as the default.\<close>

definition stringOr :: "string option \<Rightarrow> string \<Rightarrow> string" where
  "stringOr v d = (case v of None \<Rightarrow> d | Some s \<Rightarrow> if s = [] then d else s)"

text \<open>
  The loop of the Locked branch of \<open>evaluateSelector\<close> over
  \<open>[connCenter, connA, connB]\<close>, collecting \<open>outputs\<close>.
\<close>

fun lockedOutputs :: "tool \<Rightarrow> axle_values \<Rightarrow> connection list \<Rightarrow> tool_output list" where
  "lockedOutputs t av [] = []"
| "lockedOutputs t av (conn # conns) =
     (case axleId conn of
        None \<Rightarrow> lockedOutputs t av conns
      | Some a \<Rightarrow>
          (let hasExistingOutput =
                 (case av a of None \<Rightarrow> False | Some v \<Rightarrow> outputBy v \<noteq> tool_id t)
           in if \<not> hasExistingOutput
              then \<lparr>out_axleId = a, out_speed = 0, out_torque = 0\<rparr> # lockedOutputs t av conns
              else lockedOutputs t av conns))"

definition evaluateSelector :: "tool \<Rightarrow> nat \<Rightarrow> axle_values \<Rightarrow> eval_result" where
  "evaluateSelector t gearModeNum av =
     (case (findConn ''Center'' t, findConn ''A'' t, findConn ''B'' t) of
        (Some connCenter, Some connA, Some connB) \<Rightarrow>
          (let selection = stringOr (mode (params t) gearModeNum) ''Locked''
           in if selection = ''Locked'' then
                (let outputs = lockedOutputs t av [connCenter, connA, connB]
                 in if length outputs > 0 then outputsResult outputs else flaggedResult)
              else
                (let activeConn = (if selection = ''A'' then connA else connB);
                     hasCenterInput = hasInput t connCenter av;
                     hasActiveInput = hasInput t activeConn av
                 in if hasCenterInput \<and> hasActiveInput then errorResult ''Conflicting outputs''
                    else if \<not> hasCenterInput \<and> \<not> hasActiveInput then flaggedResult
                    else
                      (let (inputConn, outputConn) =
                             (if hasCenterInput then (connCenter, activeConn)
                              else (activeConn, connCenter))
                       in case axleId outputConn of
                            None \<Rightarrow> flaggedResult
                          | Some outAxle \<Rightarrow>
                              (case getValue av inputConn of
                                 None \<Rightarrow> flaggedResult
                               | Some input \<Rightarrow>
                                   outputResult
                                     \<lparr>out_axleId = outAxle,
                                      out_speed = speed input,
                                      out_torque = torque input\<rparr>))))
      | _ \<Rightarrow> flaggedResult)"

definition evaluateTool :: "tool \<Rightarrow> nat \<Rightarrow> axle_values \<Rightarrow> eval_result" where
  "evaluateTool t gearModeNum av =
     (if tool_type t = ''coupling'' then evaluateCoupling t gearModeNum av
      else if tool_type t = ''selector'' then evaluateSelector t gearModeNum av
      else if tool_type t = ''differential'' then evaluateDifferential t gearModeNum av
      else flaggedResult)"

section \<open>Propagation\<close>

definition getToolTypeName :: "string \<Rightarrow> string" where
  "getToolTypeName ty =
     (if ty = ''source'' then ''Source Axle''
      else if ty = ''coupling'' then ''Coupling''
      else if ty = ''selector'' then ''Selector''
      else if ty = ''differential'' then ''Differential''
      else ty)"

definition getToolLabel :: "tool list \<Rightarrow> string \<Rightarrow> string" where
  "getToolLabel tools toolId =
     (if toolId = ''source'' then ''Source''
      else case find (\<lambda>t. tool_id t = toolId) tools of
             Some t \<Rightarrow> getToolTypeName (tool_type t)
           | None \<Rightarrow> toolId)"

text \<open>\<open>tool.status[gearModeNum] = s\<close>\<close>

definition setStatus :: "nat \<Rightarrow> tool_status \<Rightarrow> tool \<Rightarrow> tool" where
  "setStatus gearModeNum s t = t\<lparr>status := (status t)(gearModeNum \<mapsto> s)\<rparr>"

text \<open>\<open>result.error || null\<close> and \<open>result.flagged || false\<close>\<close>

definition errorOrNull :: "eval_result \<Rightarrow> string option" where
  "errorOrNull r = (case res_error r of None \<Rightarrow> None | Some e \<Rightarrow> if e = [] then None else Some e)"

definition flaggedOrFalse :: "eval_result \<Rightarrow> bool" where
  "flaggedOrFalse r = (case res_flagged r of None \<Rightarrow> False | Some b \<Rightarrow> b)"

text \<open>
  The state of one sweep: the tool being evaluated (with its status), the map
  \<open>axleValues\<close> and the flag \<open>changed\<close>.
\<close>

type_synonym step_state = "tool \<times> axle_values \<times> bool"

text \<open>The block "Handle single output" of \<open>computeGearMode\<close>.\<close>

definition handleOutput :: "tool list \<Rightarrow> nat \<Rightarrow> tool_output \<Rightarrow> step_state \<Rightarrow> step_state" where
  "handleOutput tools gearModeNum out st =
     (case st of (t, av, changed) \<Rightarrow>
        (case av (out_axleId out) of
           Some existing \<Rightarrow>
             if outputBy existing \<noteq> tool_id t
             then (setStatus gearModeNum
                     \<lparr>error = Some (''Conflict with '' @ getToolLabel tools (outputBy existing)),
                      flagged = False\<rparr> t,
                   av, changed)
             else (t, av, changed)
         | None \<Rightarrow>
             (t,
              av(out_axleId out \<mapsto>
                   \<lparr>speed = out_speed out, torque = out_torque out, outputBy = tool_id t\<rparr>),
              True)))"

text \<open>The body of the loop "Handle multiple outputs (for Locked mode)".\<close>

definition handleLockedOutput :: "tool_output \<Rightarrow> step_state \<Rightarrow> step_state" where
  "handleLockedOutput out st =
     (case st of (t, av, changed) \<Rightarrow>
        (case av (out_axleId out) of
           Some existing \<Rightarrow>
             if outputBy existing \<noteq> tool_id t then (t, av, changed) else (t, av, changed)
         | None \<Rightarrow>
             (t,
              av(out_axleId out \<mapsto>
                   \<lparr>speed = out_speed out, torque = out_torque out, outputBy = tool_id t\<rparr>),
              True)))"

text \<open>The body of \<open>for (const tool of tools)\<close> in \<open>computeGearMode\<close>.\<close>

definition evalStep :: "tool list \<Rightarrow> nat \<Rightarrow> tool \<Rightarrow> axle_values \<Rightarrow> bool \<Rightarrow> step_state" where
  "evalStep tools gearModeNum t av changed =
     (if tool_type t = ''source'' then (t, av, changed)
      else
        (let result = evaluateTool t gearModeNum av;
             st0 = (setStatus gearModeNum
                      \<lparr>error = errorOrNull result, flagged = flaggedOrFalse result\<rparr> t,
                    av, changed);
             st1 = (case res_output result of
                      Some out \<Rightarrow>
                        if errorOrNull result = None
                        then handleOutput tools gearModeNum out st0 else st0
                    | None \<Rightarrow> st0);
             st2 = (case res_outputs result of
                      Some outs \<Rightarrow>
                        if errorOrNull result = None
                        then fold handleLockedOutput outs st1 else st1
                    | None \<Rightarrow> st1)
         in st2))"

text \<open>
  One sweep over the array \<open>tools\<close>; \<open>allTools\<close> is the whole array, which
  \<open>getToolLabel\<close> searches.
\<close>

fun sweep ::
  "tool list \<Rightarrow> nat \<Rightarrow> tool list \<Rightarrow> axle_values \<Rightarrow> bool \<Rightarrow> tool list \<times> axle_values \<times> bool" where
  "sweep allTools gearModeNum [] av changed = ([], av, changed)"
| "sweep allTools gearModeNum (t # ts) av changed =
     (case evalStep allTools gearModeNum t av changed of
        (t', av', changed') \<Rightarrow>
          (case sweep allTools gearModeNum ts av' changed' of
             (ts', av'', changed'') \<Rightarrow> (t' # ts', av'', changed'')))"

definition maxIterations :: nat where
  "maxIterations = 100"

text \<open>
  The loop \<open>while (changed && iterations < maxIterations)\<close>; the result holds the
  tools (with their statuses), \<open>axleValues\<close>, \<open>changed\<close> and \<open>iterations\<close> at exit.
\<close>

function propagate ::
  "nat \<Rightarrow> tool list \<Rightarrow> axle_values \<Rightarrow> bool \<Rightarrow> nat
     \<Rightarrow> tool list \<times> axle_values \<times> bool \<times> nat" where
  "propagate gearModeNum tools av changed iterations =
     (if changed \<and> iterations < maxIterations
      then (case sweep tools gearModeNum tools av False of
              (tools', av', changed') \<Rightarrow>
                propagate gearModeNum tools' av' changed' (iterations + 1))
      else (tools, av, changed, iterations))"
  by pat_completeness auto
termination
  by (relation "measure (\<lambda>(g, ts, av, ch, it). maxIterations - it)") auto

text \<open>
  \<open>computeGearMode\<close>. \<open>sourceTool\<close> is the first element of \<open>tools\<close>
  (\<open>resetData\<close> pushes it first and \<open>removeTool\<close> never removes it), and
  \<open>sourceConn\<close> its first connection; where either is missing the JavaScript throws
  a TypeError, which is \<open>None\<close> here. The result holds the tools with the statuses
  written and the returned \<open>axleValues\<close>.
\<close>

definition computeGearMode :: "nat \<Rightarrow> tool list \<Rightarrow> (tool list \<times> axle_values) option" where
  "computeGearMode gearModeNum tools =
     (case tools of
        [] \<Rightarrow> None
      | sourceTool # rest \<Rightarrow>
          (case connections sourceTool of
             [] \<Rightarrow> None
           | sourceConn # _ \<Rightarrow>
               (let av0 = (case axleId sourceConn of
                             None \<Rightarrow> Map.empty
                           | Some a \<Rightarrow> [a \<mapsto> \<lparr>speed = 1, torque = 1, outputBy = ''source''\<rparr>]);
                    tools0 = setStatus gearModeNum \<lparr>error = None, flagged = False\<rparr> sourceTool
                               # rest
                in case propagate gearModeNum tools0 av0 True 0 of
                     (tools', av', changed', iterations') \<Rightarrow> Some (tools', av'))))"

text \<open>
  \<open>compute\<close>: clear the statuses, then run every gear mode from 1 to
  \<open>numGearModes\<close>, collecting \<open>allResults\<close>.
\<close>

fun computeModes ::
  "nat list \<Rightarrow> tool list \<Rightarrow> (nat \<rightharpoonup> axle_values) \<Rightarrow> (tool list \<times> (nat \<rightharpoonup> axle_values)) option" where
  "computeModes [] tools allResults = Some (tools, allResults)"
| "computeModes (g # gs) tools allResults =
     (case computeGearMode g tools of
        None \<Rightarrow> None
      | Some (tools', av) \<Rightarrow> computeModes gs tools' (allResults(g \<mapsto> av)))"

definition compute :: "nat \<Rightarrow> tool list \<Rightarrow> (tool list \<times> (nat \<rightharpoonup> axle_values)) option" where
  "compute numGearModes tools =
     computeModes [1..<numGearModes + 1] (map (\<lambda>t. t\<lparr>status := Map.empty\<rparr>) tools) Map.empty"

section \<open>Tools as the module builds them\<close>

text \<open>
  \<open>addTool\<close> gives a Coupling the connections Gear A and Gear B, a Selector Center,
  A and B, a Differential Body, A and B; \<open>resetData\<close> gives the source one connection
  Output. \<open>updateConnection\<close> and \<open>updateParam\<close> then set the axle ids and the
  parameters, which are arguments here.
\<close>

definition emptyParams :: tool_params where
  "emptyParams = \<lparr>teethA = None, teethB = None, invertDirection = None, mode = (\<lambda>g. None)\<rparr>"

definition sourceAxleTool :: "nat option \<Rightarrow> tool" where
  "sourceAxleTool a =
     \<lparr>tool_type = ''source'', tool_id = ''source'',
      connections = [\<lparr>name = ''Output'', axleId = a\<rparr>],
      params = emptyParams, status = Map.empty\<rparr>"

definition couplingTool ::
  "string \<Rightarrow> nat option \<Rightarrow> nat option \<Rightarrow> real option \<Rightarrow> real option \<Rightarrow> bool option \<Rightarrow> tool" where
  "couplingTool i a b tA tB invertD =
     \<lparr>tool_type = ''coupling'', tool_id = i,
      connections = [\<lparr>name = ''Gear A'', axleId = a\<rparr>, \<lparr>name = ''Gear B'', axleId = b\<rparr>],
      params = emptyParams\<lparr>teethA := tA, teethB := tB, invertDirection := invertD\<rparr>,
      status = Map.empty\<rparr>"

definition selectorTool ::
  "string \<Rightarrow> nat option \<Rightarrow> nat option \<Rightarrow> nat option \<Rightarrow> (nat \<Rightarrow> string option) \<Rightarrow> tool" where
  "selectorTool i c a b modes =
     \<lparr>tool_type = ''selector'', tool_id = i,
      connections = [\<lparr>name = ''Center'', axleId = c\<rparr>, \<lparr>name = ''A'', axleId = a\<rparr>,
                     \<lparr>name = ''B'', axleId = b\<rparr>],
      params = emptyParams\<lparr>mode := modes\<rparr>, status = Map.empty\<rparr>"

definition differentialTool :: "string \<Rightarrow> nat option \<Rightarrow> nat option \<Rightarrow> nat option \<Rightarrow> tool" where
  "differentialTool i body a b =
     \<lparr>tool_type = ''differential'', tool_id = i,
      connections = [\<lparr>name = ''Body'', axleId = body\<rparr>, \<lparr>name = ''A'', axleId = a\<rparr>,
                     \<lparr>name = ''B'', axleId = b\<rparr>],
      params = emptyParams, status = Map.empty\<rparr>"

section \<open>The loop body in closed form\<close>

text \<open>
  Auxiliary functions for the proofs: what one evaluation writes (\<open>writeOutput\<close>
  is the write of both output blocks: it sets an absent axle and leaves a present one),
  the outputs that reach these blocks, and the status at the end of the loop body.
  Lemma \<open>evalStep_eq\<close> shows that \<open>evalStep\<close> computes exactly these.
\<close>

definition writeOutput :: "string \<Rightarrow> tool_output \<Rightarrow> axle_values \<Rightarrow> axle_values" where
  "writeOutput i out av =
     (case av (out_axleId out) of
        Some existing \<Rightarrow> av
      | None \<Rightarrow> av(out_axleId out \<mapsto>
                   \<lparr>speed = out_speed out, torque = out_torque out, outputBy = i\<rparr>))"

definition outputsOf :: "eval_result \<Rightarrow> tool_output list" where
  "outputsOf r =
     (if errorOrNull r = None
      then (case res_output r of Some out \<Rightarrow> [out] | None \<Rightarrow> [])
             @ (case res_outputs r of Some outs \<Rightarrow> outs | None \<Rightarrow> [])
      else [])"

definition stepValues :: "tool \<Rightarrow> nat \<Rightarrow> axle_values \<Rightarrow> axle_values" where
  "stepValues t g av = fold (writeOutput (tool_id t)) (outputsOf (evaluateTool t g av)) av"

definition stepStatus :: "tool list \<Rightarrow> tool \<Rightarrow> nat \<Rightarrow> axle_values \<Rightarrow> tool_status" where
  "stepStatus tools t g av =
     (let r = evaluateTool t g av;
          base = \<lparr>error = errorOrNull r, flagged = flaggedOrFalse r\<rparr>
      in if errorOrNull r = None then
           (case res_output r of
              Some out \<Rightarrow>
                (case av (out_axleId out) of
                   Some existing \<Rightarrow>
                     if outputBy existing \<noteq> tool_id t
                     then \<lparr>error = Some (''Conflict with '' @ getToolLabel tools (outputBy existing)),
                           flagged = False\<rparr>
                     else base
                 | None \<Rightarrow> base)
            | None \<Rightarrow> base)
         else base)"

text \<open>The shape shared by the Coupling and by the Selector on A or B.\<close>

definition pairResult ::
  "tool \<Rightarrow> connection \<Rightarrow> connection \<Rightarrow> (axle_value \<Rightarrow> real \<times> real) \<Rightarrow> (axle_value \<Rightarrow> real \<times> real)
     \<Rightarrow> axle_values \<Rightarrow> eval_result" where
  "pairResult t cX cY fXY fYX av =
     (if hasInput t cX av \<and> hasInput t cY av then errorResult ''Conflicting outputs''
      else if \<not> hasInput t cX av \<and> \<not> hasInput t cY av then flaggedResult
      else if hasInput t cX av then
        (case axleId cY of
           None \<Rightarrow> flaggedResult
         | Some outAxle \<Rightarrow>
             (case getValue av cX of
                None \<Rightarrow> flaggedResult
              | Some input \<Rightarrow>
                  outputResult \<lparr>out_axleId = outAxle, out_speed = fst (fXY input),
                                out_torque = snd (fXY input)\<rparr>))
      else
        (case axleId cX of
           None \<Rightarrow> flaggedResult
         | Some outAxle \<Rightarrow>
             (case getValue av cY of
                None \<Rightarrow> flaggedResult
              | Some input \<Rightarrow>
                  outputResult \<lparr>out_axleId = outAxle, out_speed = fst (fYX input),
                                out_torque = snd (fYX input)\<rparr>)))"

text \<open>Two tool objects that differ at most in their status.\<close>

definition sameTool :: "tool \<Rightarrow> tool \<Rightarrow> bool" where
  "sameTool t u \<longleftrightarrow>
     tool_type t = tool_type u \<and> tool_id t = tool_id u \<and> connections t = connections u
       \<and> params t = params u"

text \<open>\<open>n\<close> sweeps of the loop body of \<open>propagate\<close>, whatever the flag \<open>changed\<close>.\<close>

fun sweepTimes :: "nat \<Rightarrow> nat \<Rightarrow> tool list \<Rightarrow> axle_values \<Rightarrow> tool list \<times> axle_values" where
  "sweepTimes 0 g tools av = (tools, av)"
| "sweepTimes (Suc n) g tools av =
     (case sweep tools g tools av False of
        (tools', av', changed') \<Rightarrow> sweepTimes n g tools' av')"

section \<open>Geometry kernel\<close>

text \<open>
  The exported \<open>circleIntersections(c0, r0, c1, r1)\<close> of the geometry module. JavaScript numbers
  are modelled as real numbers; \<open>1e-12\<close> is \<open>1 / 10 ^ 12\<close>.
\<close>

record point =
  point_x :: real
  point_y :: real







section \<open>Gear coupling enumerator\<close>

text \<open>
  A gear is one of the two worm designations \<open>'1(1L)'\<close>, \<open>'1(2L)'\<close> or a number of teeth. The
  follower \<open>gearB\<close> is always a number: \<open>calculateGearCouplings\<close> skips worm gears there.
\<close>

datatype gear = Worm1L | Worm2L | Teeth real

definition calculateCenterDistance :: "gear \<Rightarrow> real \<Rightarrow> real" where
  "calculateCenterDistance gearA gearB =
     (case gearA of
        Worm1L \<Rightarrow> 0.75 + gearB / 16
      | Worm2L \<Rightarrow> 0.5 + gearB / 16
      | Teeth a \<Rightarrow> (a + gearB) / 16)"

definition calculateGearRatio :: "gear \<Rightarrow> real \<Rightarrow> real" where
  "calculateGearRatio gearA gearB =
     (case gearA of
        Worm1L \<Rightarrow> 1 / gearB
      | Worm2L \<Rightarrow> 1 / gearB
      | Teeth a \<Rightarrow> a / gearB)"

text \<open>The objects \<open>{x, y, dist}\<close> and \<open>{exact, overfit, underfit}\<close> of \<open>findMountingPositions\<close>.\<close>

record position =
  pos_x :: real
  pos_y :: real
  pos_dist :: real

record mounting =
  exact :: "position list"
  overfit :: "position list"
  underfit :: "position list"

text \<open>The body of the inner loop of \<open>findMountingPositions\<close>, at the offset \<open>(x, y)\<close>.\<close>

definition visitOffset :: "real \<Rightarrow> real \<Rightarrow> real \<Rightarrow> real \<Rightarrow> real \<Rightarrow> mounting \<Rightarrow> mounting" where
  "visitOffset idist maxOverfit maxUnderfit x y m =
     (let actualDist = sqrt (x * x + y * y) in
      if actualDist > idist + maxOverfit then m
      else if actualDist < idist - maxUnderfit then m
      else if actualDist = 0 then m
      else
        (let diff = actualDist - idist;
             p = \<lparr>pos_x = x, pos_y = y, pos_dist = actualDist\<rparr>
         in if \<bar>diff\<bar> < 0.0001 then m\<lparr>exact := exact m @ [p]\<rparr>
            else if diff > 0 then m\<lparr>overfit := overfit m @ [p]\<rparr>
            else m\<lparr>underfit := underfit m @ [p]\<rparr>))"

text \<open>
  \<open>findMountingPositions\<close>. The loop \<open>for (let x = 0; x <= maxCoord; x += 0.5)\<close> visits
  \<open>x = i / 2\<close> for \<open>i = 0, 1, ..\<close> up to \<open>2 * maxCoord\<close>, the inner loop \<open>y = j / 2\<close> for \<open>j \<le> i\<close>.
\<close>

definition findMountingPositions :: "real \<Rightarrow> real \<Rightarrow> real \<Rightarrow> mounting" where
  "findMountingPositions idist maxOverfit maxUnderfit =
     (let maxCoord = \<lceil>idist + maxOverfit + 1\<rceil> in
      fold (\<lambda>i m. fold (\<lambda>j. visitOffset idist maxOverfit maxUnderfit (real i / 2) (real j / 2))
                       [0..<i + 1] m)
           [0..<nat (2 * maxCoord + 1)]
           \<lparr>exact = [], overfit = [], underfit = []\<rparr>)"

definition getOverfitColorClass :: "real \<Rightarrow> real \<Rightarrow> string" where
  "getOverfitColorClass actualDist idealDist =
     (let diff = actualDist - idealDist in
      if diff \<le> 0.05 then ''text-green''
      else if diff \<le> 0.1 then ''text-orange''
      else ''text-red'')"

text \<open>
  The offsets the two loops visit, in order, and what makes a position a candidate: it is on
  the half-stud grid below the diagonal and within \<open>maxCoord\<close>, it carries its Euclidean
  distance, it is not the origin and its distance is within the two tolerances.
\<close>

definition offsets :: "real \<Rightarrow> real \<Rightarrow> (real \<times> real) list" where
  "offsets idist maxOverfit =
     concat (map (\<lambda>i. map (\<lambda>j. (real i / 2, real j / 2)) [0..<i + 1])
               [0..<nat (2 * \<lceil>idist + maxOverfit + 1\<rceil> + 1)])"

definition candidate :: "real \<Rightarrow> real \<Rightarrow> real \<Rightarrow> position \<Rightarrow> bool" where
  "candidate idist maxOverfit maxUnderfit p \<longleftrightarrow>
     (\<exists>i j. j \<le> i \<and> real i / 2 \<le> of_int \<lceil>idist + maxOverfit + 1\<rceil>
        \<and> pos_x p = real i / 2 \<and> pos_y p = real j / 2)
   \<and> pos_dist p = sqrt (pos_x p * pos_x p + pos_y p * pos_y p)
   \<and> (pos_x p, pos_y p) \<noteq> (0, 0)
   \<and> idist - maxUnderfit \<le> pos_dist p \<and> pos_dist p \<le> idist + maxOverfit"


section \<open>Liftarm enumerator\<close>

text \<open>\<open>Point.distanceTo\<close> and the method \<open>Point.circleIntersections(r0, other, r1)\<close>.\<close>

definition distanceTo :: "point \<Rightarrow> point \<Rightarrow> real" where
  "distanceTo p other = sqrt ((point_x p - point_x other)\<^sup>2 + (point_y p - point_y other)\<^sup>2)"

definition Point_circleIntersections :: "point \<Rightarrow> real \<Rightarrow> point \<Rightarrow> real \<Rightarrow> point list" where
  "Point_circleIntersections p r0 other r1 =
     (let d = distanceTo p other in
      if d > r0 + r1 \<or> d < \<bar>r0 - r1\<bar> \<or> d = 0 then []
      else
        (let a = (r0 * r0 - r1 * r1 + d * d) / (2 * d);
             h2 = r0 * r0 - a * a
         in if h2 < 0 then []
            else
              (let h = sqrt h2;
                   px = point_x p + a * (point_x other - point_x p) / d;
                   py = point_y p + a * (point_y other - point_y p) / d;
                   rx = - (point_y other - point_y p) * h / d;
                   ry = (point_x other - point_x p) * h / d
               in if h = 0 then [\<lparr>point_x = px, point_y = py\<rparr>]
                  else [\<lparr>point_x = px + rx, point_y = py + ry\<rparr>,
                        \<lparr>point_x = px - rx, point_y = py - ry\<rparr>])))"

text \<open>
  \<open>formatNumber(value, decimals)\<close>, that is \<open>value.toFixed(decimals)\<close>: the string is given by its
  sign, the integer its digits spell and the number of decimals; of two nearest integers
  \<open>toFixed\<close> takes the larger. \<open>parseFloat\<close> reads such a string back.
\<close>

type_synonym fixed = "bool \<times> nat \<times> nat"

definition formatNumber :: "real \<Rightarrow> nat \<Rightarrow> fixed" where
  "formatNumber v decimals = (v < 0, nat \<lfloor>\<bar>v\<bar> * 10 ^ decimals + 1 / 2\<rfloor>, decimals)"

definition parseFloat :: "fixed \<Rightarrow> real" where
  "parseFloat s = (case s of (neg, n, decimals) \<Rightarrow>
     (if neg then - 1 else 1) * real n / 10 ^ decimals)"

text \<open>\<open>Math.atan2(y, x)\<close> and the remainder \<open>v % 1\<close>, which has the sign of \<open>v\<close>.\<close>

definition atan2 :: "real \<Rightarrow> real \<Rightarrow> real" where
  "atan2 y x =
     (if 0 < x then arctan (y / x)
      else if x < 0 then (if 0 \<le> y then arctan (y / x) + pi else arctan (y / x) - pi)
      else if 0 < y then pi / 2
      else if y < 0 then - (pi / 2)
      else 0)"

definition rem1 :: "real \<Rightarrow> real" where
  "rem1 v = v - of_int (if 0 \<le> v then \<lfloor>v\<rfloor> else \<lceil>v\<rceil>)"

definition angleAt :: "point \<Rightarrow> point \<Rightarrow> point \<Rightarrow> real" where
  "angleAt vertex pointA pointB =
     (let v1x = point_x pointA - point_x vertex;
          v1y = point_y pointA - point_y vertex;
          v2x = point_x pointB - point_x vertex;
          v2y = point_y pointB - point_y vertex;
          norm1 = sqrt (v1x * v1x + v1y * v1y);
          norm2 = sqrt (v2x * v2x + v2y * v2y)
      in if norm1 < 1 / 10 ^ 12 \<or> norm2 < 1 / 10 ^ 12 then 0
         else
           (let dot = v1x * v2x + v1y * v2y;
                cosAngle = max (- 1) (min 1 (dot / (norm1 * norm2)))
            in arccos cosAngle * 180 / pi))"

text \<open>A row of the result of \<open>calculatePositions\<close>.\<close>

record row =
  row_sx :: real
  row_sy :: real
  row_sNum :: real
  row_aLen :: real
  row_bLen :: real
  row_cLen :: real
  row_tx :: real
  row_ty :: real
  row_ix :: real
  row_iy :: real
  row_angleA :: real
  row_angleB :: real
  row_angleC :: real
  row_angleAB :: real
  row_angleAC :: real
  row_angleBC :: real
  keyRemoveLarger :: "fixed \<times> fixed"

text \<open>The parameters of \<open>calculatePositions\<close> but \<open>removeLarger\<close>.\<close>

record options =
  halfStuds :: bool
  removeYGreaterX :: bool
  minA :: real
  maxA :: real
  minB :: real
  maxB :: real
  minDecimal :: real
  maxDecimal :: real
  includeComplementaryDecimal :: bool

definition step :: "options \<Rightarrow> real" where
  "step opts = (if halfStuds opts then 0.5 else 1)"

definition origin :: point where
  "origin = \<lparr>point_x = 0, point_y = 0\<rparr>"

text \<open>
  The values of the variable of a loop \<open>for (let v = lo; v <= hi; v += st)\<close> with \<open>st > 0\<close>:
  \<open>lo + k * st\<close> as long as that is at most \<open>hi\<close>.
\<close>

definition frange :: "real \<Rightarrow> real \<Rightarrow> real \<Rightarrow> real list" where
  "frange lo hi st =
     (if lo \<le> hi then map (\<lambda>k. lo + real k * st) [0..<nat \<lfloor>(hi - lo) / st\<rfloor> + 1] else [])"

text \<open>
  The body of the loop over \<open>sNum\<close> up to the \<open>removeLarger\<close> test: the row that will be pushed,
  or \<open>None\<close> where the decimal filter says \<open>continue\<close>.
\<close>

definition stud :: "options \<Rightarrow> point \<Rightarrow> point \<Rightarrow> real \<Rightarrow> real \<Rightarrow> real \<Rightarrow> row option" where
  "stud opts T I aLen bLen sNum =
     (let ratio = sNum / aLen;
          S = \<lparr>point_x = point_x I * ratio, point_y = point_y I * ratio\<rparr>;
          sxDecimal = rem1 (point_x S);
          syDecimal = rem1 (point_y S)
      in if (sxDecimal < minDecimal opts \<or> sxDecimal > maxDecimal opts)
            \<and> (syDecimal < minDecimal opts \<or> syDecimal > maxDecimal opts)
            \<and> (\<not> includeComplementaryDecimal opts
               \<or> (sxDecimal < 1 - maxDecimal opts \<or> sxDecimal > 1 - minDecimal opts)
                 \<and> (syDecimal < 1 - maxDecimal opts \<or> syDecimal > 1 - minDecimal opts))
         then None
         else Some
           \<lparr>row_sx = parseFloat (formatNumber (point_x S) 3),
            row_sy = parseFloat (formatNumber (point_y S) 3),
            row_sNum = sNum, row_aLen = aLen, row_bLen = bLen,
            row_cLen = parseFloat (formatNumber (distanceTo origin T) 3),
            row_tx = parseFloat (formatNumber (point_x T) 3),
            row_ty = parseFloat (formatNumber (point_y T) 3),
            row_ix = parseFloat (formatNumber (point_x I) 3),
            row_iy = parseFloat (formatNumber (point_y I) 3),
            row_angleA = parseFloat (formatNumber (atan2 (point_y I) (point_x I) * 180 / pi) 1),
            row_angleB = parseFloat (formatNumber
               (atan2 (point_y T - point_y I) (point_x T - point_x I) * 180 / pi) 1),
            row_angleC = parseFloat (formatNumber (atan2 (point_y T) (point_x T) * 180 / pi) 1),
            row_angleAB = parseFloat (formatNumber (angleAt I origin T) 1),
            row_angleAC = parseFloat (formatNumber (angleAt origin I T) 1),
            row_angleBC = parseFloat (formatNumber (angleAt T origin I) 1),
            keyRemoveLarger = (formatNumber (point_x S) 3, formatNumber (point_y S) 3)\<rparr>)"

text \<open>The state of the loops: \<open>results\<close> and the map \<open>minLenSum\<close>.\<close>

type_synonym lift_state = "row list \<times> (fixed \<times> fixed \<rightharpoonup> real)"

text \<open>The \<open>removeLarger\<close> test and \<open>results.push\<close>.\<close>

definition pushRow :: "bool \<Rightarrow> row \<Rightarrow> lift_state \<Rightarrow> lift_state" where
  "pushRow removeLarger r st =
     (case st of (results, minLenSum) \<Rightarrow>
        if removeLarger then
          (let thisVal = row_aLen r + row_bLen r in
           case minLenSum (keyRemoveLarger r) of
             Some m \<Rightarrow>
               if thisVal \<ge> m + 0.001 then (results, minLenSum)
               else (results @ [r], minLenSum(keyRemoveLarger r \<mapsto> thisVal))
           | None \<Rightarrow> (results @ [r], minLenSum(keyRemoveLarger r \<mapsto> thisVal)))
        else (results @ [r], minLenSum))"

definition studBody ::
  "bool \<Rightarrow> options \<Rightarrow> point \<Rightarrow> point \<Rightarrow> real \<Rightarrow> real \<Rightarrow> real \<Rightarrow> lift_state \<Rightarrow> lift_state" where
  "studBody removeLarger opts T I aLen bLen sNum st =
     (case stud opts T I aLen bLen sNum of
        None \<Rightarrow> st
      | Some r \<Rightarrow> pushRow removeLarger r st)"

text \<open>The body of \<open>for (const I of intersections)\<close>.\<close>

definition intersectionBody ::
  "bool \<Rightarrow> options \<Rightarrow> point \<Rightarrow> real \<Rightarrow> real \<Rightarrow> point \<Rightarrow> lift_state \<Rightarrow> lift_state" where
  "intersectionBody removeLarger opts T aLen bLen I st =
     (if point_x I < 0 \<or> point_y I < 0 then st
      else if removeYGreaterX opts \<and> point_y I > point_x I then st
      else fold (studBody removeLarger opts T I aLen bLen) (frange (step opts) aLen (step opts)) st)"

text \<open>The body of the loop over \<open>ty\<close>: the loops over \<open>aLen\<close> and \<open>bLen\<close>.\<close>

definition targetBody :: "bool \<Rightarrow> options \<Rightarrow> real \<Rightarrow> real \<Rightarrow> lift_state \<Rightarrow> lift_state" where
  "targetBody removeLarger opts tx ty st =
     fold (\<lambda>aLen. fold (\<lambda>bLen.
             fold (intersectionBody removeLarger opts \<lparr>point_x = tx, point_y = ty\<rparr> aLen bLen)
               (Point_circleIntersections origin aLen \<lparr>point_x = tx, point_y = ty\<rparr> bLen))
           (frange (minB opts) (maxB opts) (step opts)))
       (frange (minA opts) (maxA opts) (step opts)) st"

text \<open>
  The flag \<open>foundAnyForTx\<close> at the end of the body of the loop over \<open>tx\<close>: some \<open>ty\<close>, \<open>aLen\<close> and
  \<open>bLen\<close> gave \<open>intersections.length > 0\<close>.
\<close>

definition foundAnyForTx :: "options \<Rightarrow> real \<Rightarrow> bool" where
  "foundAnyForTx opts tx =
     list_ex (\<lambda>ty. list_ex (\<lambda>aLen. list_ex (\<lambda>bLen.
         Point_circleIntersections origin aLen \<lparr>point_x = tx, point_y = ty\<rparr> bLen \<noteq> [])
       (frange (minB opts) (maxB opts) (step opts)))
       (frange (minA opts) (maxA opts) (step opts)))
       (frange (- (maxA opts + maxB opts)) (maxA opts + maxB opts) (step opts))"

text \<open>The loop over \<open>tx\<close>, with its \<open>break\<close>.\<close>

fun txLoop :: "bool \<Rightarrow> options \<Rightarrow> real list \<Rightarrow> lift_state \<Rightarrow> lift_state" where
  "txLoop removeLarger opts [] st = st"
| "txLoop removeLarger opts (tx # txs) st =
     (let st' = fold (targetBody removeLarger opts tx)
                  (frange (- (maxA opts + maxB opts)) (maxA opts + maxB opts) (step opts)) st
      in if \<not> foundAnyForTx opts tx \<and> tx > 0 then st'
         else txLoop removeLarger opts txs st')"

text \<open>The key of the final \<open>results.sort\<close>: \<open>sx\<close>, then \<open>sy\<close>, \<open>aLen\<close> and \<open>bLen\<close>.\<close>

definition sortKey :: "row \<Rightarrow> real \<times> real \<times> real \<times> real" where
  "sortKey r = (row_sx r, row_sy r, row_aLen r, row_bLen r)"

text \<open>
  \<open>calculatePositions\<close>. The final loop with \<open>results.splice\<close> removes the rows whose sum is at
  least the entry of \<open>minLenSum\<close> plus \<open>0.001\<close>; the sort is stable.
\<close>

definition calculatePositions ::
  "bool \<Rightarrow> bool \<Rightarrow> bool \<Rightarrow> real \<Rightarrow> real \<Rightarrow> real \<Rightarrow> real \<Rightarrow> real \<Rightarrow> real \<Rightarrow> bool \<Rightarrow> row list" where
  "calculatePositions hs removeLarger ryx mnA mxA mnB mxB mnD mxD icd =
     (let opts = \<lparr>halfStuds = hs, removeYGreaterX = ryx, minA = mnA, maxA = mxA, minB = mnB,
                   maxB = mxB, minDecimal = mnD, maxDecimal = mxD,
                   includeComplementaryDecimal = icd\<rparr>;
          maxReach = mxA + mxB
      in case txLoop removeLarger opts (frange (- maxReach) maxReach (step opts)) ([], Map.empty) of
           (results, minLenSum) \<Rightarrow>
             sort_key sortKey
               (if removeLarger
                then filter (\<lambda>r. \<not> (case minLenSum (keyRemoveLarger r) of
                                        Some m \<Rightarrow> row_aLen r + row_bLen r \<ge> m + 0.001
                                      | None \<Rightarrow> False)) results
                else results))"

text \<open>The rows in the order the loops reach them, whatever \<open>removeLarger\<close>.\<close>

definition rowsAt :: "options \<Rightarrow> real \<Rightarrow> real \<Rightarrow> row list" where
  "rowsAt opts tx ty =
     concat (map (\<lambda>aLen. concat (map (\<lambda>bLen. concat (map (\<lambda>I.
         if point_x I < 0 \<or> point_y I < 0 then []
         else if removeYGreaterX opts \<and> point_y I > point_x I then []
         else concat (map (\<lambda>sNum.
                case stud opts \<lparr>point_x = tx, point_y = ty\<rparr> I aLen bLen sNum of
                  None \<Rightarrow> [] | Some r \<Rightarrow> [r])
              (frange (step opts) aLen (step opts))))
       (Point_circleIntersections origin aLen \<lparr>point_x = tx, point_y = ty\<rparr> bLen)))
       (frange (minB opts) (maxB opts) (step opts))))
       (frange (minA opts) (maxA opts) (step opts)))"

fun visited :: "options \<Rightarrow> real list \<Rightarrow> real list" where
  "visited opts [] = []"
| "visited opts (tx # txs) =
     tx # (if \<not> foundAnyForTx opts tx \<and> tx > 0 then [] else visited opts txs)"

definition allRows :: "options \<Rightarrow> row list" where
  "allRows opts =
     concat (map (\<lambda>tx. concat (map (rowsAt opts tx)
                (frange (- (maxA opts + maxB opts)) (maxA opts + maxB opts) (step opts))))
       (visited opts (frange (- (maxA opts + maxB opts)) (maxA opts + maxB opts) (step opts))))"

text \<open>A row whose sum of lengths is least among the rows \<open>rs\<close> with its key.\<close>

definition minimalIn :: "row list \<Rightarrow> row \<Rightarrow> bool" where
  "minimalIn rs r \<longleftrightarrow>
     (\<forall>r' \<in> set rs. keyRemoveLarger r' = keyRemoveLarger r \<longrightarrow>
        row_aLen r + row_bLen r \<le> row_aLen r' + row_bLen r')"

text \<open>
  What holds of \<open>results\<close> and \<open>minLenSum\<close> when the rows \<open>xs\<close> of \<open>rs\<close> have been through the
  \<open>removeLarger\<close> test.
\<close>

definition scanInv :: "row list \<Rightarrow> row list \<Rightarrow> lift_state \<Rightarrow> bool" where
  "scanInv rs xs st \<longleftrightarrow>
     (case st of (results, minLenSum) \<Rightarrow>
        (\<forall>k. minLenSum k = None \<longrightarrow> (\<forall>r \<in> set xs. keyRemoveLarger r \<noteq> k))
      \<and> (\<forall>k m. minLenSum k = Some m \<longrightarrow>
            (\<exists>r \<in> set xs. keyRemoveLarger r = k \<and> row_aLen r + row_bLen r = m)
          \<and> (\<forall>r \<in> set xs. keyRemoveLarger r = k \<longrightarrow> m \<le> row_aLen r + row_bLen r))
      \<and> filter (minimalIn rs) results = filter (minimalIn rs) xs
      \<and> set results \<subseteq> set xs)"

text \<open>
  Sums of lengths that are either in order or more than \<open>0.001\<close> apart, as they are on the grid
  of the loops over \<open>aLen\<close> and \<open>bLen\<close>.
\<close>

definition stepped :: "row list \<Rightarrow> bool" where
  "stepped rs \<longleftrightarrow>
     (\<forall>r \<in> set rs. \<forall>r' \<in> set rs.
        row_aLen r' + row_bLen r' < row_aLen r + row_bLen r + 0.001 \<longrightarrow>
        row_aLen r' + row_bLen r' \<le> row_aLen r + row_bLen r)"


section \<open>Chains of Couplings\<close>

text \<open>
  The axle values alone after one sweep: the source tool is skipped, every other tool adds the
  outputs its evaluator returns for axles that have no value yet.
\<close>

fun sweepValues :: "nat \<Rightarrow> tool list \<Rightarrow> axle_values \<Rightarrow> axle_values" where
  "sweepValues g [] av = av"
| "sweepValues g (t # ts) av =
     sweepValues g ts (if tool_type t = ''source'' then av else stepValues t g av)"

text \<open>
  A chain of \<open>N\<close> Couplings in series over the axles \<open>1 .. N + 1\<close>: link \<open>i\<close> has its two gears on
  the axles \<open>i\<close> and \<open>i + 1\<close> (in either order) and the id \<open>lid i\<close>; the tool list holds every link,
  and besides links only the source tool.
\<close>

definition chainLink :: "nat \<Rightarrow> tool \<Rightarrow> bool" where
  "chainLink i t \<longleftrightarrow>
     tool_type t = ''coupling'' \<and>
     (\<exists>cA cB. findConn ''Gear A'' t = Some cA \<and> findConn ''Gear B'' t = Some cB
        \<and> ((axleId cA = Some i \<and> axleId cB = Some (Suc i))
           \<or> (axleId cA = Some (Suc i) \<and> axleId cB = Some i)))"

definition chainTools :: "nat \<Rightarrow> (nat \<Rightarrow> string) \<Rightarrow> tool list \<Rightarrow> bool" where
  "chainTools N lid ts \<longleftrightarrow>
     (\<forall>t \<in> set ts. tool_type t = ''source''
        \<or> (\<exists>i. 1 \<le> i \<and> i \<le> N \<and> chainLink i t \<and> tool_id t = lid i))
   \<and> (\<forall>i. 1 \<le> i \<and> i \<le> N \<longrightarrow> (\<exists>t \<in> set ts. chainLink i t \<and> tool_id t = lid i))
   \<and> inj_on lid {1..N} \<and> (\<forall>i \<in> {1..N}. lid i \<noteq> ''source'')"

text \<open>What holds of the axle values all along the propagation over a chain.\<close>

definition chainInv :: "nat \<Rightarrow> (nat \<Rightarrow> string) \<Rightarrow> axle_values \<Rightarrow> bool" where
  "chainInv N lid av \<longleftrightarrow>
     av 1 \<noteq> None
   \<and> (\<forall>a v. av a = Some v \<longrightarrow>
          1 \<le> a \<and> a \<le> N + 1 \<and> outputBy v = (if a = 1 then ''source'' else lid (a - 1)))"

section \<open>Properties of the evaluators\<close>

lemma hasInput_getValue: "hasInput t c av \<Longrightarrow> \<exists>v. getValue av c = Some v"
  by (auto simp: hasInput_def getValue_def split: option.splits)

lemma result_simps [simp]:
  "outputResult a = outputResult b \<longleftrightarrow> a = b"
  "outputResult a \<noteq> flaggedResult" "flaggedResult \<noteq> outputResult a"
  "outputResult a \<noteq> errorResult m" "errorResult m \<noteq> outputResult a"
  "outputResult a \<noteq> outputsResult os" "outputsResult os \<noteq> outputResult a"
  "res_output (outputResult a) = Some a" "res_outputs (outputResult a) = None"
  "res_output flaggedResult = None" "res_outputs flaggedResult = None"
  "res_output (errorResult m) = None" "res_outputs (errorResult m) = None"
  "res_output (outputsResult os) = None" "res_outputs (outputsResult os) = Some os"
  "errorOrNull (outputResult a) = None" "errorOrNull flaggedResult = None"
  "errorOrNull (outputsResult os) = None"
  "errorOrNull (errorResult m) = (if m = [] then None else Some m)"
  "flaggedOrFalse (outputResult a) = False" "flaggedOrFalse flaggedResult = True"
  "flaggedOrFalse (outputsResult os) = False" "flaggedOrFalse (errorResult m) = False"
  by (auto simp: outputResult_def flaggedResult_def errorResult_def outputsResult_def
        errorOrNull_def flaggedOrFalse_def)

lemma writeOutput_keeps: "av a = Some v \<Longrightarrow> writeOutput i out av a = Some v"
  by (auto simp: writeOutput_def split: option.splits)

lemma fold_writeOutput_keeps: "av a = Some v \<Longrightarrow> fold (writeOutput i) outs av a = Some v"
  by (induction outs arbitrary: av) (simp_all add: writeOutput_keeps)

lemma writeOutput_neq: "writeOutput i out av \<noteq> av \<longleftrightarrow> av (out_axleId out) = None"
  by (auto simp: writeOutput_def fun_upd_idem_iff split: option.splits)

lemma fold_writeOutput_neq:
  "fold (writeOutput i) outs av \<noteq> av \<longleftrightarrow> (\<exists>out \<in> set outs. av (out_axleId out) = None)"
proof (induction outs arbitrary: av)
  case Nil
  show ?case by simp
next
  case (Cons out outs)
  show ?case
  proof (cases "av (out_axleId out)")
    case None
    then have "writeOutput i out av (out_axleId out) \<noteq> None"
      by (simp add: writeOutput_def)
    then obtain v where "writeOutput i out av (out_axleId out) = Some v" by auto
    then have "fold (writeOutput i) outs (writeOutput i out av) (out_axleId out) = Some v"
      by (rule fold_writeOutput_keeps)
    with None show ?thesis by auto
  next
    case (Some e)
    then have "writeOutput i out av = av" by (simp add: writeOutput_def)
    with Some Cons.IH[of av] show ?thesis by auto
  qed
qed

lemma handleLockedOutput_eq:
  "handleLockedOutput out (t, av, ch) =
     (t, writeOutput (tool_id t) out av, ch \<or> av (out_axleId out) = None)"
  by (simp add: handleLockedOutput_def writeOutput_def split: option.splits)

lemma fold_handleLockedOutput_eq:
  "fold handleLockedOutput outs (t, av, ch) =
     (t, fold (writeOutput (tool_id t)) outs av,
      ch \<or> fold (writeOutput (tool_id t)) outs av \<noteq> av)"
proof (induction outs arbitrary: av ch)
  case Nil
  show ?case by simp
next
  case (Cons out outs)
  have "fold (writeOutput (tool_id t)) outs (writeOutput (tool_id t) out av) \<noteq> av
        \<longleftrightarrow> av (out_axleId out) = None
            \<or> fold (writeOutput (tool_id t)) outs (writeOutput (tool_id t) out av)
                 \<noteq> writeOutput (tool_id t) out av"
  proof (cases "av (out_axleId out)")
    case None
    then have "writeOutput (tool_id t) out av (out_axleId out) \<noteq> None"
      by (simp add: writeOutput_def)
    then obtain v where "writeOutput (tool_id t) out av (out_axleId out) = Some v" by auto
    then have "fold (writeOutput (tool_id t)) outs (writeOutput (tool_id t) out av) (out_axleId out)
                 = Some v"
      by (rule fold_writeOutput_keeps)
    with None show ?thesis by auto
  next
    case (Some e)
    then have "writeOutput (tool_id t) out av = av" by (simp add: writeOutput_def)
    with Some show ?thesis by simp
  qed
  then show ?case
    by (simp add: handleLockedOutput_eq Cons.IH)
qed

lemma setStatus_twice [simp]: "setStatus g s (setStatus g s' t) = setStatus g s t"
  by (simp add: setStatus_def)

lemma setStatus_fields [simp]:
  "tool_id (setStatus g s t) = tool_id t" "tool_type (setStatus g s t) = tool_type t"
  "connections (setStatus g s t) = connections t" "params (setStatus g s t) = params t"
  "status (setStatus g s t) = (status t)(g \<mapsto> s)"
  by (simp_all add: setStatus_def)

lemma evalStep_source: "tool_type t = ''source'' \<Longrightarrow> evalStep all g t av ch = (t, av, ch)"
  by (simp add: evalStep_def)

lemma evalStep_eq:
  assumes "tool_type t \<noteq> ''source''"
  shows "evalStep all g t av ch =
           (setStatus g (stepStatus all t g av) t, stepValues t g av, ch \<or> stepValues t g av \<noteq> av)"
proof -
  let ?r = "evaluateTool t g av"
  show ?thesis
  proof (cases "errorOrNull ?r")
    case (Some e)
    then show ?thesis
      using assms
      by (simp add: evalStep_def Let_def stepStatus_def stepValues_def outputsOf_def
            split: option.splits)
  next
    case None
    show ?thesis
    proof (cases "res_output ?r")
      case N2: None
      with None assms show ?thesis
        by (simp add: evalStep_def Let_def stepStatus_def stepValues_def outputsOf_def
              fold_handleLockedOutput_eq split: option.splits)
    next
      case (Some out)
      show ?thesis
      proof (cases "av (out_axleId out)")
        case N3: None
        have w: "writeOutput (tool_id t) out av \<noteq> av" using N3 by (simp add: writeOutput_neq)
        have f: "fold (writeOutput (tool_id t)) outs (writeOutput (tool_id t) out av) \<noteq> av" for outs
        proof -
          from N3 obtain v where "writeOutput (tool_id t) out av (out_axleId out) = Some v"
            by (auto simp: writeOutput_def)
          then have "fold (writeOutput (tool_id t)) outs (writeOutput (tool_id t) out av) (out_axleId out) = Some v"
            by (rule fold_writeOutput_keeps)
          with N3 show ?thesis by auto
        qed
        from None Some N3 assms w f show ?thesis
          by (simp add: evalStep_def Let_def stepStatus_def stepValues_def outputsOf_def
              handleOutput_def fold_handleLockedOutput_eq writeOutput_def split: option.splits)
      next
        case S3: (Some existing)
        have w: "writeOutput (tool_id t) out av = av" using S3 by (simp add: writeOutput_def)
        from None Some S3 assms w show ?thesis
          by (simp add: evalStep_def Let_def stepStatus_def stepValues_def outputsOf_def
              handleOutput_def fold_handleLockedOutput_eq split: option.splits)
      qed
    qed
  qed
qed


section \<open>Conflicts seen by the evaluators\<close>




lemma not_hasInput_own:
  "\<not> hasInput t c av \<Longrightarrow> axleId c = Some x \<Longrightarrow> av x = Some e \<Longrightarrow> outputBy e = tool_id t"
  by (auto simp: hasInput_def split: option.splits)





lemma pairResult_output:
  assumes "pairResult t cX cY f h av = r" and "res_output r = Some out"
  shows "(hasInput t cX av \<and> \<not> hasInput t cY av \<and> axleId cY = Some (out_axleId out))
       \<or> (hasInput t cY av \<and> \<not> hasInput t cX av \<and> axleId cX = Some (out_axleId out))"
proof (cases "hasInput t cX av")
  case True
  then show ?thesis
    using assms
    by (cases "hasInput t cY av")
       (auto simp: pairResult_def split: option.splits if_splits)
next
  case False
  then show ?thesis
    using assms
    by (cases "hasInput t cY av")
       (auto simp: pairResult_def split: option.splits if_splits)
qed

lemma pairResult_output_free:
  assumes "pairResult t cX cY f h av = r" and "res_output r = Some out"
    and "av (out_axleId out) = Some e"
  shows "outputBy e = tool_id t"
  using pairResult_output[OF assms(1,2)] assms(3)
  by (auto simp: hasInput_def)





lemma evaluateCoupling_pair:
  assumes "findConn ''Gear A'' t = Some connA" and "findConn ''Gear B'' t = Some connB"
  shows "evaluateCoupling t g av =
          pairResult t connA connB
            (\<lambda>input. ((if invertDirection (params t) = Some False then 1 else - 1) * speed input
                         * (numberOr (teethA (params t)) 16 / numberOr (teethB (params t)) 16),
                       torque input
                         * (numberOr (teethB (params t)) 16 / numberOr (teethA (params t)) 16)))
            (\<lambda>input. ((if invertDirection (params t) = Some False then 1 else - 1) * speed input
                         * (numberOr (teethB (params t)) 16 / numberOr (teethA (params t)) 16),
                       torque input
                         * (numberOr (teethA (params t)) 16 / numberOr (teethB (params t)) 16)))
            av"
proof -
  have d: "(if (case invertDirection (params t) of None \<Rightarrow> True | Some b \<Rightarrow> b) then - 1 else 1)
           = (if invertDirection (params t) = Some False then 1 else - (1::real))"
    by (cases "invertDirection (params t)") auto
  show ?thesis
    using assms
    by (cases "hasInput t connA av"; cases "hasInput t connB av")
       (simp_all add: evaluateCoupling_def pairResult_def Let_def d split: option.splits)
qed

lemma evaluateCoupling_flagged:
  "findConn ''Gear A'' t = None \<or> findConn ''Gear B'' t = None
     \<Longrightarrow> evaluateCoupling t g av = flaggedResult"
  by (auto simp: evaluateCoupling_def split: option.splits)

lemma evaluateSelector_locked:
  assumes "findConn ''Center'' t = Some connCenter" and "findConn ''A'' t = Some connA"
    and "findConn ''B'' t = Some connB"
    and "stringOr (mode (params t) g) ''Locked'' = ''Locked''"
  shows "evaluateSelector t g av =
           (if lockedOutputs t av [connCenter, connA, connB] \<noteq> []
            then outputsResult (lockedOutputs t av [connCenter, connA, connB])
            else flaggedResult)"
  using assms by (simp add: evaluateSelector_def Let_def)

lemma evaluateSelector_pair:
  assumes "findConn ''Center'' t = Some connCenter" and "findConn ''A'' t = Some connA"
    and "findConn ''B'' t = Some connB"
    and "stringOr (mode (params t) g) ''Locked'' \<noteq> ''Locked''"
  shows "evaluateSelector t g av =
           pairResult t connCenter
             (if stringOr (mode (params t) g) ''Locked'' = ''A'' then connA else connB)
             (\<lambda>input. (speed input, torque input)) (\<lambda>input. (speed input, torque input)) av"
  using assms
  by (cases "hasInput t connCenter av";
      cases "hasInput t (if stringOr (mode (params t) g) ''Locked'' = ''A'' then connA else connB) av")
     (simp_all add: evaluateSelector_def pairResult_def Let_def split: option.splits)

lemma evaluateSelector_flagged:
  "findConn ''Center'' t = None \<or> findConn ''A'' t = None \<or> findConn ''B'' t = None
     \<Longrightarrow> evaluateSelector t g av = flaggedResult"
  by (auto simp: evaluateSelector_def split: option.splits)


lemma evaluateDifferential_flagged:
  "findConn ''Body'' t = None \<or> findConn ''A'' t = None \<or> findConn ''B'' t = None
     \<Longrightarrow> evaluateDifferential t g av = flaggedResult"
  by (auto simp: evaluateDifferential_def split: option.splits)

lemma evaluateDifferential_output:
  assumes "evaluateDifferential t g av = r" and "res_output r = Some out"
  shows "\<exists>cBody cA cB.
           findConn ''Body'' t = Some cBody \<and> findConn ''A'' t = Some cA
         \<and> findConn ''B'' t = Some cB
         \<and> ((\<not> hasInput t cBody av \<and> hasInput t cA av \<and> hasInput t cB av
               \<and> axleId cBody = Some (out_axleId out))
            \<or> (hasInput t cBody av \<and> \<not> hasInput t cA av \<and> hasInput t cB av
               \<and> axleId cA = Some (out_axleId out))
            \<or> (hasInput t cBody av \<and> hasInput t cA av \<and> \<not> hasInput t cB av
               \<and> axleId cB = Some (out_axleId out)))"
proof -
  from assms obtain cBody cA cB where
    f: "findConn ''Body'' t = Some cBody" "findConn ''A'' t = Some cA" "findConn ''B'' t = Some cB"
    using evaluateDifferential_flagged[of t g av]
    by (cases "findConn ''Body'' t"; cases "findConn ''A'' t"; cases "findConn ''B'' t") auto
  show ?thesis
    using assms f
    by (cases "hasInput t cBody av"; cases "hasInput t cA av"; cases "hasInput t cB av")
       (auto simp add: evaluateDifferential_def Let_def split: option.splits)
qed

lemma evaluateDifferential_output_free:
  assumes "evaluateDifferential t g av = r" and "res_output r = Some out"
    and "av (out_axleId out) = Some e"
  shows "outputBy e = tool_id t"
  using evaluateDifferential_output[OF assms(1,2)] assms(3)
  by (auto simp: hasInput_def)






lemma evaluateCoupling_cases:
  obtains "evaluateCoupling t g av = flaggedResult"
  | cA cB f h where "evaluateCoupling t g av = pairResult t cA cB f h av"
  using evaluateCoupling_flagged[of t g av] evaluateCoupling_pair[of t _ _ g av]
  by (cases "findConn ''Gear A'' t"; cases "findConn ''Gear B'' t") auto

lemma evaluateSelector_cases:
  obtains "evaluateSelector t g av = flaggedResult"
  | outs where "evaluateSelector t g av = outputsResult outs"
  | cA cB f h where "evaluateSelector t g av = pairResult t cA cB f h av"
proof (cases "findConn ''Center'' t = None \<or> findConn ''A'' t = None \<or> findConn ''B'' t = None")
  case True
  then show ?thesis using evaluateSelector_flagged that(1) by blast
next
  case False
  then obtain cC cA cB where
    f: "findConn ''Center'' t = Some cC" "findConn ''A'' t = Some cA" "findConn ''B'' t = Some cB"
    by auto
  show ?thesis
  proof (cases "stringOr (mode (params t) g) ''Locked'' = ''Locked''")
    case True
    from evaluateSelector_locked[OF f True, of av] that(1,2) show ?thesis
      by (cases "lockedOutputs t av [cC, cA, cB] = []") auto
  next
    case False
    from evaluateSelector_pair[OF f False, of av] that(3) show ?thesis by blast
  qed
qed


lemma evaluateTool_output_free:
  assumes "res_output (evaluateTool t g av) = Some out" and "av (out_axleId out) = Some e"
  shows "outputBy e = tool_id t"
proof -
  consider "tool_type t = ''coupling''"
    | "tool_type t \<noteq> ''coupling''" "tool_type t = ''selector''"
    | "tool_type t \<noteq> ''coupling''" "tool_type t \<noteq> ''selector''" "tool_type t = ''differential''"
    | "tool_type t \<noteq> ''coupling''" "tool_type t \<noteq> ''selector''" "tool_type t \<noteq> ''differential''"
    by blast
  then show ?thesis
  proof cases
    case 1
    with assms(1) have r: "res_output (evaluateCoupling t g av) = Some out"
      by (simp add: evaluateTool_def)
    show ?thesis
    proof (rule evaluateCoupling_cases[of t g av])
      assume "evaluateCoupling t g av = flaggedResult"
      with r show ?thesis by simp
    next
      fix cA cB f h
      assume "evaluateCoupling t g av = pairResult t cA cB f h av"
      with r have "res_output (pairResult t cA cB f h av) = Some out" by simp
      from pairResult_output_free[OF refl this assms(2)] show ?thesis .
    qed
  next
    case 2
    with assms(1) have r: "res_output (evaluateSelector t g av) = Some out"
      by (simp add: evaluateTool_def)
    show ?thesis
    proof (rule evaluateSelector_cases[of t g av])
      assume "evaluateSelector t g av = flaggedResult"
      with r show ?thesis by simp
    next
      fix outs
      assume "evaluateSelector t g av = outputsResult outs"
      with r show ?thesis by simp
    next
      fix cA cB f h
      assume "evaluateSelector t g av = pairResult t cA cB f h av"
      with r have "res_output (pairResult t cA cB f h av) = Some out" by simp
      from pairResult_output_free[OF refl this assms(2)] show ?thesis .
    qed
  next
    case 3
    with assms(1) have "res_output (evaluateDifferential t g av) = Some out"
      by (simp add: evaluateTool_def)
    from evaluateDifferential_output_free[OF refl this assms(2)] show ?thesis .
  next
    case 4
    with assms(1) show ?thesis by (simp add: evaluateTool_def)
  qed
qed

lemma stepStatus_eq:
  "stepStatus all t g av =
     \<lparr>error = errorOrNull (evaluateTool t g av), flagged = flaggedOrFalse (evaluateTool t g av)\<rparr>"
  by (auto simp: stepStatus_def Let_def split: option.splits dest: evaluateTool_output_free)
























section \<open>The propagation loop\<close>

declare propagate.simps [simp del]

lemma propagate_continue:
  "changed \<Longrightarrow> iterations < maxIterations \<Longrightarrow>
   propagate g ts av changed iterations =
     (case sweep ts g ts av False of
        (ts', av', changed') \<Rightarrow> propagate g ts' av' changed' (iterations + 1))"
  by (simp add: propagate.simps)

lemma propagate_exit:
  "\<not> changed \<or> \<not> iterations < maxIterations \<Longrightarrow>
   propagate g ts av changed iterations = (ts, av, changed, iterations)"
  by (auto simp add: propagate.simps)

lemma evalStep_keeps:
  assumes "evalStep all g t av ch = (t', av', ch')" and "av a = Some v"
  shows "av' a = Some v"
proof (cases "tool_type t = ''source''")
  case True
  with assms show ?thesis by (simp add: evalStep_source)
next
  case False
  with assms(1) have "av' = stepValues t g av" by (simp add: evalStep_eq)
  with assms(2) show ?thesis by (simp add: stepValues_def fold_writeOutput_keeps)
qed

lemma sweep_keeps:
  "sweep all g ts av ch = (ts', av', ch') \<Longrightarrow> av a = Some v \<Longrightarrow> av' a = Some v"
proof (induction ts arbitrary: av ch ts' av' ch')
  case Nil
  then show ?case by simp
next
  case (Cons t ts)
  obtain t1 av1 ch1 where s: "evalStep all g t av ch = (t1, av1, ch1)"
    by (cases "evalStep all g t av ch") auto
  obtain ts2 av2 ch2 where r: "sweep all g ts av1 ch1 = (ts2, av2, ch2)"
    by (cases "sweep all g ts av1 ch1") auto
  from s Cons.prems(2) have "av1 a = Some v" by (rule evalStep_keeps)
  with Cons.IH[OF r] have "av2 a = Some v" .
  with Cons.prems(1) s r show ?case by simp
qed

lemma propagate_keeps:
  "propagate g ts av ch it = (ts', av', ch', it') \<Longrightarrow> av a = Some v \<Longrightarrow> av' a = Some v"
proof (induction g ts av ch it rule: propagate.induct)
  case (1 g ts av ch it)
  show ?case
  proof (cases "ch \<and> it < maxIterations")
    case True
    obtain ts1 av1 ch1 where s: "sweep ts g ts av False = (ts1, av1, ch1)"
      by (cases "sweep ts g ts av False") auto
    from s "1.prems"(2) have k: "av1 a = Some v" by (rule sweep_keeps)
    from True s "1.prems"(1) have "propagate g ts1 av1 ch1 (it + 1) = (ts', av', ch', it')"
      by (simp add: propagate_continue)
    from "1.IH"[OF True s[symmetric] refl this k] show ?thesis .
  next
    case False
    with "1.prems" show ?thesis by (auto simp: propagate_exit)
  qed
qed

text \<open>
  C7. Within one propagation the map \<open>axleValues\<close> is write-once: an entry that is
  present stays as it is through every evaluation of a tool (a conflicting tool, the
  producing tool evaluated again, a Locked Selector with several outputs), through
  every sweep and through the whole loop of \<open>computeGearMode\<close>, from any state of it.
\<close>

theorem axleValues_write_once:
  assumes "av a = Some v"
  shows "fst (snd (evalStep all g t av ch)) a = Some v
       \<and> fst (snd (sweep all g ts av ch)) a = Some v
       \<and> fst (snd (propagate g ts av ch it)) a = Some v"
proof -
  have "fst (snd (evalStep all g t av ch)) a = Some v"
    using assms
    by (cases "evalStep all g t av ch") (auto dest: evalStep_keeps[where av=av and a=a and v=v])
  moreover have "fst (snd (sweep all g ts av ch)) a = Some v"
    using assms
    by (cases "sweep all g ts av ch") (auto dest: sweep_keeps[where av=av and a=a and v=v])
  moreover have "fst (snd (propagate g ts av ch it)) a = Some v"
    using assms
    by (cases "propagate g ts av ch it")
       (auto dest: propagate_keeps[where av=av and a=a and v=v])
  ultimately show ?thesis by simp
qed

section \<open>Tools that differ in their status only\<close>

lemma sameTool_refl [simp]: "sameTool t t"
  by (simp add: sameTool_def)

lemma sameTool_sym: "sameTool t u \<Longrightarrow> sameTool u t"
  by (simp add: sameTool_def)

lemma sameTool_trans: "sameTool t u \<Longrightarrow> sameTool u v \<Longrightarrow> sameTool t v"
  by (simp add: sameTool_def)

lemma sameTool_setStatus [simp]: "sameTool (setStatus g s t) u = sameTool t u"
  "sameTool u (setStatus g s t) = sameTool u t"
  by (simp_all add: sameTool_def)

lemma sameTool_status: "sameTool t u \<Longrightarrow> t = u\<lparr>status := status t\<rparr>"
  by (cases t, cases u) (simp add: sameTool_def)

lemma lockedOutputs_status [simp]:
  "lockedOutputs (t\<lparr>status := s\<rparr>) av conns = lockedOutputs t av conns"
  by (induction conns) (simp_all split: option.splits)

lemma hasInput_status [simp]: "hasInput (t\<lparr>status := s\<rparr>) c av = hasInput t c av"
  by (simp add: hasInput_def split: option.splits)

lemma findConn_status [simp]: "findConn n (t\<lparr>status := s\<rparr>) = findConn n t"
  by (simp add: findConn_def)

lemma evaluateTool_status: "evaluateTool (t\<lparr>status := s\<rparr>) g av = evaluateTool t g av"
  by (simp add: evaluateTool_def evaluateCoupling_def evaluateSelector_def
        evaluateDifferential_def Let_def cong: option.case_cong prod.case_cong if_cong)

lemma evaluateTool_sameTool: "sameTool t u \<Longrightarrow> evaluateTool t g av = evaluateTool u g av"
  using evaluateTool_status[where t=u and s="status t" and g=g and av=av]
    sameTool_status[of t u] by simp

lemma stepValues_sameTool: "sameTool t u \<Longrightarrow> stepValues t g av = stepValues u g av"
  by (simp add: stepValues_def evaluateTool_sameTool[of t u]) (simp add: sameTool_def)

lemma evalStep_sameTool: "sameTool (fst (evalStep all g t av ch)) t"
  by (cases "tool_type t = ''source''") (simp_all add: evalStep_source evalStep_eq)

lemma sweep_sameTool:
  "sweep all g ts av ch = (ts', av', ch') \<Longrightarrow> list_all2 sameTool ts' ts"
proof (induction ts arbitrary: av ch ts' av' ch')
  case Nil
  then show ?case by simp
next
  case (Cons t ts)
  obtain t1 av1 ch1 where s: "evalStep all g t av ch = (t1, av1, ch1)"
    by (cases "evalStep all g t av ch") auto
  obtain ts2 av2 ch2 where r: "sweep all g ts av1 ch1 = (ts2, av2, ch2)"
    by (cases "sweep all g ts av1 ch1") auto
  from evalStep_sameTool[of all g t av ch] s have "sameTool t1 t" by simp
  with Cons.IH[OF r] Cons.prems s r show ?case by auto
qed


lemma sweep_length: "sweep all g ts av ch = (ts', av', ch') \<Longrightarrow> length ts' = length ts"
  by (drule sweep_sameTool) (rule list_all2_lengthD)


section \<open>Selectors\<close>

lemma writeOutput_other: "out_axleId out \<noteq> u \<Longrightarrow> writeOutput i out av u = av u"
  by (simp add: writeOutput_def split: option.splits)

lemma fold_writeOutput_other:
  "\<forall>out \<in> set outs. out_axleId out \<noteq> u \<Longrightarrow> fold (writeOutput i) outs av u = av u"
  by (induction outs arbitrary: av) (simp_all add: writeOutput_other)

lemma fold_writeOutput_const:
  assumes "\<forall>out \<in> set outs. out_speed out = s \<and> out_torque out = q"
  shows "fold (writeOutput i) outs av a =
           (if a \<in> out_axleId ` set outs \<and> av a = None
            then Some \<lparr>speed = s, torque = q, outputBy = i\<rparr> else av a)"
  using assms
proof (induction outs arbitrary: av)
  case Nil
  show ?case by simp
next
  case (Cons out outs)
  then have IH: "fold (writeOutput i) outs (writeOutput i out av) a =
           (if a \<in> out_axleId ` set outs \<and> writeOutput i out av a = None
            then Some \<lparr>speed = s, torque = q, outputBy = i\<rparr> else writeOutput i out av a)"
    by simp
  from Cons.prems have o: "out_speed out = s" "out_torque out = q" by simp_all
  show ?case
    unfolding fold_Cons comp_apply IH
    by (cases "av (out_axleId out)") (auto simp: writeOutput_def o)
qed

lemma lockedOutputs_zero:
  "\<forall>out \<in> set (lockedOutputs t av conns). out_speed out = 0 \<and> out_torque out = 0"
  by (induction conns) (auto simp: Let_def split: option.splits)

lemma lockedOutputs_axles:
  "out_axleId ` set (lockedOutputs t av conns) =
     {a. \<exists>conn \<in> set conns. axleId conn = Some a \<and> \<not> hasInput t conn av}"
proof (induction conns)
  case Nil
  show ?case by simp
next
  case (Cons conn conns)
  show ?case
  proof (cases "axleId conn")
    case None
    with Cons show ?thesis by (auto simp: hasInput_def)
  next
    case (Some a)
    have h: "hasInput t conn av = (case av a of None \<Rightarrow> False | Some v \<Rightarrow> outputBy v \<noteq> tool_id t)"
      using Some by (simp add: hasInput_def)
    show ?thesis
    proof (cases "hasInput t conn av")
      case True
      with Some h have "lockedOutputs t av (conn # conns) = lockedOutputs t av conns"
        by (simp add: Let_def)
      with Cons True show ?thesis by auto
    next
      case False
      with Some h have "lockedOutputs t av (conn # conns) =
          \<lparr>out_axleId = a, out_speed = 0, out_torque = 0\<rparr> # lockedOutputs t av conns"
        by (simp add: Let_def)
      with Cons False Some show ?thesis by auto
    qed
  qed
qed


lemma evaluateTool_locked:
  assumes "tool_type t = ''selector''"
    and "findConn ''Center'' t = Some cC" and "findConn ''A'' t = Some cA"
    and "findConn ''B'' t = Some cB"
    and "stringOr (mode (params t) g) ''Locked'' = ''Locked''"
  shows "evaluateTool t g av =
           (if lockedOutputs t av [cC, cA, cB] \<noteq> []
            then outputsResult (lockedOutputs t av [cC, cA, cB]) else flaggedResult)"
  using assms(1) evaluateSelector_locked[OF assms(2,3,4,5)]
  by (simp add: evaluateTool_def)

lemma outputsOf_locked:
  assumes "tool_type t = ''selector''"
    and "findConn ''Center'' t = Some cC" and "findConn ''A'' t = Some cA"
    and "findConn ''B'' t = Some cB"
    and "stringOr (mode (params t) g) ''Locked'' = ''Locked''"
  shows "outputsOf (evaluateTool t g av) = lockedOutputs t av [cC, cA, cB]"
  unfolding evaluateTool_locked[OF assms]
  by (simp add: outputsOf_def)

lemma stepValues_cong:
  "tool_id u = tool_id t \<Longrightarrow> evaluateTool u g av = evaluateTool t g av
     \<Longrightarrow> stepValues u g av = stepValues t g av"
  by (simp add: stepValues_def)

lemma stepValues_other:
  "\<forall>out \<in> set (outputsOf (evaluateTool t g av)). out_axleId out \<noteq> u
     \<Longrightarrow> stepValues t g av u = av u"
  by (simp add: stepValues_def fold_writeOutput_other)

lemma outputsOf_pairResult:
  assumes "out \<in> set (outputsOf (pairResult t cX cY f h av))"
  shows "axleId cX = Some (out_axleId out) \<or> axleId cY = Some (out_axleId out)"
proof -
  from assms have "res_output (pairResult t cX cY f h av) = Some out"
    by (cases "hasInput t cX av"; cases "hasInput t cY av")
       (auto simp: outputsOf_def pairResult_def split: option.splits if_splits)
  from pairResult_output[OF refl this] show ?thesis by auto
qed


text \<open>The definitions a concrete run unfolds.\<close>

lemmas run_defs = evaluateTool_def evaluateCoupling_def evaluateSelector_def evaluateDifferential_def
  findConn_def hasInput_def getValue_def numberOr_def stringOr_def
  flaggedResult_def errorResult_def outputResult_def outputsResult_def
  errorOrNull_def flaggedOrFalse_def handleOutput_def handleLockedOutput_def setStatus_def
  getToolLabel_def getToolTypeName_def evalStep_def
  couplingTool_def selectorTool_def differentialTool_def sourceAxleTool_def emptyParams_def
  computeGearMode_def propagate_continue propagate_exit maxIterations_def

text \<open>
  C5. For a Selector whose parameter for the mode is Locked (or missing), one evaluation
  in the loop of \<open>computeGearMode\<close> leaves every connected side whose axle has no
  value of another tool with an entry: where the axle had none it gets speed 0 and
  torque 0 under the Selector's id, and an entry the Selector wrote before stays. The
  status is OK as soon as one connected side has no value of another tool, and flagged
  (with nothing written) when every connected side carries a value of another tool.
\<close>

theorem selector_locked_zeroing:
  assumes "tool_type t = ''selector''"
    and "findConn ''Center'' t = Some cC" and "findConn ''A'' t = Some cA"
    and "findConn ''B'' t = Some cB"
    and "stringOr (mode (params t) g) ''Locked'' = ''Locked''"
  shows "(\<forall>conn \<in> set [cC, cA, cB]. \<forall>a. axleId conn = Some a \<and> \<not> hasInput t conn av \<longrightarrow>
            fst (snd (evalStep all g t av ch)) a =
              (case av a of
                 None \<Rightarrow> Some \<lparr>speed = 0, torque = 0, outputBy = tool_id t\<rparr>
               | Some v \<Rightarrow> Some v))
       \<and> ((\<exists>conn \<in> set [cC, cA, cB]. axleId conn \<noteq> None \<and> \<not> hasInput t conn av) \<longrightarrow>
            status (fst (evalStep all g t av ch)) g = Some \<lparr>error = None, flagged = False\<rparr>)
       \<and> ((\<forall>conn \<in> set [cC, cA, cB]. axleId conn \<noteq> None \<longrightarrow> hasInput t conn av) \<longrightarrow>
            evalStep all g t av ch = (setStatus g \<lparr>error = None, flagged = True\<rparr> t, av, ch))"
proof -
  let ?outs = "lockedOutputs t av [cC, cA, cB]"
  have ns: "tool_type t \<noteq> ''source''" using assms(1) by simp
  have ax: "out_axleId ` set ?outs =
              {a. \<exists>conn \<in> set [cC, cA, cB]. axleId conn = Some a \<and> \<not> hasInput t conn av}"
    by (rule lockedOutputs_axles)
  have sv: "stepValues t g av a =
              (if a \<in> out_axleId ` set ?outs \<and> av a = None
               then Some \<lparr>speed = 0, torque = 0, outputBy = tool_id t\<rparr> else av a)" for a
    unfolding stepValues_def outputsOf_locked[OF assms]
    by (rule fold_writeOutput_const) (rule lockedOutputs_zero)
  have 1: "\<forall>conn \<in> set [cC, cA, cB]. \<forall>a. axleId conn = Some a \<and> \<not> hasInput t conn av \<longrightarrow>
            fst (snd (evalStep all g t av ch)) a =
              (case av a of
                 None \<Rightarrow> Some \<lparr>speed = 0, torque = 0, outputBy = tool_id t\<rparr>
               | Some v \<Rightarrow> Some v)"
  proof (intro ballI allI impI)
    fix conn a
    assume c: "conn \<in> set [cC, cA, cB]" and a: "axleId conn = Some a \<and> \<not> hasInput t conn av"
    then have "a \<in> out_axleId ` set ?outs" unfolding ax by blast
    then show "fst (snd (evalStep all g t av ch)) a =
              (case av a of
                 None \<Rightarrow> Some \<lparr>speed = 0, torque = 0, outputBy = tool_id t\<rparr>
               | Some v \<Rightarrow> Some v)"
      by (simp add: evalStep_eq[OF ns] sv split: option.splits)
  qed
  have 2: "(\<exists>conn \<in> set [cC, cA, cB]. axleId conn \<noteq> None \<and> \<not> hasInput t conn av) \<longrightarrow>
            status (fst (evalStep all g t av ch)) g = Some \<lparr>error = None, flagged = False\<rparr>"
  proof
    assume "\<exists>conn \<in> set [cC, cA, cB]. axleId conn \<noteq> None \<and> \<not> hasInput t conn av"
    then have "out_axleId ` set ?outs \<noteq> {}" unfolding ax by auto
    then have "?outs \<noteq> []" by auto
    then show "status (fst (evalStep all g t av ch)) g = Some \<lparr>error = None, flagged = False\<rparr>"
      by (simp add: evalStep_eq[OF ns] stepStatus_eq evaluateTool_locked[OF assms])
  qed
  have 3: "(\<forall>conn \<in> set [cC, cA, cB]. axleId conn \<noteq> None \<longrightarrow> hasInput t conn av) \<longrightarrow>
            evalStep all g t av ch = (setStatus g \<lparr>error = None, flagged = True\<rparr> t, av, ch)"
  proof
    assume "\<forall>conn \<in> set [cC, cA, cB]. axleId conn \<noteq> None \<longrightarrow> hasInput t conn av"
    then have "out_axleId ` set ?outs = {}" unfolding ax by auto
    then have e: "?outs = []" by auto
    then have "stepValues t g av = av"
      by (simp add: stepValues_def outputsOf_locked[OF assms])
    with e show "evalStep all g t av ch = (setStatus g \<lparr>error = None, flagged = True\<rparr> t, av, ch)"
      by (simp add: evalStep_eq[OF ns] stepStatus_eq evaluateTool_locked[OF assms])
  qed
  from 1 2 3 show ?thesis by blast
qed

text \<open>
  The instance: a Locked Selector with only Center connected. On axle 2, which has no
  value, it writes speed 0 and torque 0 and its status is OK; on axle 1, which carries the
  value of the source, it is flagged and writes nothing.
\<close>

theorem selector_locked_zeroing_witness:
  "tool_type (selectorTool ''tool_1'' (Some 2) None None (\<lambda>g. Some ''Locked'')) = ''selector''
   \<and> \<not> hasInput (selectorTool ''tool_1'' (Some 2) None None (\<lambda>g. Some ''Locked''))
          \<lparr>name = ''Center'', axleId = Some 2\<rparr>
          [1 \<mapsto> \<lparr>speed = 1, torque = 1, outputBy = ''source''\<rparr>]
   \<and> fst (snd (evalStep [] 1 (selectorTool ''tool_1'' (Some 2) None None (\<lambda>g. Some ''Locked''))
          [1 \<mapsto> \<lparr>speed = 1, torque = 1, outputBy = ''source''\<rparr>] False)) 2
       = Some \<lparr>speed = 0, torque = 0, outputBy = ''tool_1''\<rparr>
   \<and> status (fst (evalStep [] 1 (selectorTool ''tool_1'' (Some 2) None None (\<lambda>g. Some ''Locked''))
          [1 \<mapsto> \<lparr>speed = 1, torque = 1, outputBy = ''source''\<rparr>] False)) 1
       = Some \<lparr>error = None, flagged = False\<rparr>
   \<and> evalStep [] 1 (selectorTool ''tool_1'' (Some 1) None None (\<lambda>g. Some ''Locked''))
          [1 \<mapsto> \<lparr>speed = 1, torque = 1, outputBy = ''source''\<rparr>] False
       = (setStatus 1 \<lparr>error = None, flagged = True\<rparr>
            (selectorTool ''tool_1'' (Some 1) None None (\<lambda>g. Some ''Locked'')),
          [1 \<mapsto> \<lparr>speed = 1, torque = 1, outputBy = ''source''\<rparr>], False)"
proof -
  let ?t = "selectorTool ''tool_1'' (Some 2) None None (\<lambda>g. Some ''Locked'')"
  let ?u = "selectorTool ''tool_1'' (Some 1) None None (\<lambda>g. Some ''Locked'')"
  let ?av = "[1 \<mapsto> \<lparr>speed = 1, torque = 1, outputBy = ''source''\<rparr>]"
  have h: "\<not> hasInput ?t \<lparr>name = ''Center'', axleId = Some 2\<rparr> ?av"
    by (simp add: hasInput_def selectorTool_def)
  have hu: "hasInput ?u \<lparr>name = ''Center'', axleId = Some 1\<rparr> ?av"
    by (simp add: hasInput_def selectorTool_def)
  note T = selector_locked_zeroing[where t = ?t and g = 1 and av = ?av and ch = False
      and all = "[]" and cC = "\<lparr>name = ''Center'', axleId = Some 2\<rparr>"
      and cA = "\<lparr>name = ''A'', axleId = None\<rparr>" and cB = "\<lparr>name = ''B'', axleId = None\<rparr>"]
  note U = selector_locked_zeroing[where t = ?u and g = 1 and av = ?av and ch = False
      and all = "[]" and cC = "\<lparr>name = ''Center'', axleId = Some 1\<rparr>"
      and cA = "\<lparr>name = ''A'', axleId = None\<rparr>" and cB = "\<lparr>name = ''B'', axleId = None\<rparr>"]
  have T': "(\<forall>conn \<in> set [\<lparr>name = ''Center'', axleId = Some 2\<rparr>, \<lparr>name = ''A'', axleId = None\<rparr>,
                \<lparr>name = ''B'', axleId = None\<rparr>]. \<forall>a. axleId conn = Some a \<and> \<not> hasInput ?t conn ?av \<longrightarrow>
            fst (snd (evalStep [] 1 ?t ?av False)) a =
              (case ?av a of
                 None \<Rightarrow> Some \<lparr>speed = 0, torque = 0, outputBy = tool_id ?t\<rparr>
               | Some v \<Rightarrow> Some v))
       \<and> ((\<exists>conn \<in> set [\<lparr>name = ''Center'', axleId = Some 2\<rparr>, \<lparr>name = ''A'', axleId = None\<rparr>,
                \<lparr>name = ''B'', axleId = None\<rparr>]. axleId conn \<noteq> None \<and> \<not> hasInput ?t conn ?av) \<longrightarrow>
            status (fst (evalStep [] 1 ?t ?av False)) 1 = Some \<lparr>error = None, flagged = False\<rparr>)"
    using T by (simp add: selectorTool_def findConn_def stringOr_def emptyParams_def)
  have 1: "fst (snd (evalStep [] 1 ?t ?av False)) 2 = Some \<lparr>speed = 0, torque = 0, outputBy = ''tool_1''\<rparr>"
    using T'[THEN conjunct1, THEN bspec, where x = "\<lparr>name = ''Center'', axleId = Some 2\<rparr>",
        THEN spec, where x = 2] h
    by (simp add: selectorTool_def)
  have 2: "status (fst (evalStep [] 1 ?t ?av False)) 1 = Some \<lparr>error = None, flagged = False\<rparr>"
    using T'[THEN conjunct2] h by auto
  have 3: "evalStep [] 1 ?u ?av False = (setStatus 1 \<lparr>error = None, flagged = True\<rparr> ?u, ?av, False)"
    using U hu by (simp add: selectorTool_def findConn_def stringOr_def emptyParams_def)
  have 0: "tool_type ?t = ''selector''" by (simp add: selectorTool_def)
  from 0 h 1 2 3 show ?thesis by blast
qed



text \<open>
  C6 (as amended). A Selector whose parameter for the mode is A or B evaluates as the
  Coupling with equal teeth and no inversion whose Gear A and Gear B are bound as the
  Selector's Center and selected side: the same result of the evaluator (output,
  flagged or conflict), the same writes and the same status. The axle of the unselected
  side keeps its entry whenever it is not also the axle of Center or of the selected
  side.
\<close>

theorem evaluateSelector_as_coupling:
  assumes "tool_type t = ''selector''"
    and "findConn ''Center'' t = Some cC" and "findConn ''A'' t = Some cA"
    and "findConn ''B'' t = Some cB"
    and "mode (params t) g = Some s" and "s = ''A'' \<or> s = ''B''"
    and "active = (if s = ''A'' then cA else cB)"
    and "unselected = (if s = ''A'' then cB else cA)"
    and "c = couplingTool (tool_id t) (axleId cC) (axleId active) (Some n) (Some n) (Some False)"
  shows "evaluateTool t g av = evaluateTool c g av
       \<and> snd (evalStep all g t av ch) = snd (evalStep all g c av ch)
       \<and> status (fst (evalStep all g t av ch)) g = status (fst (evalStep all g c av ch)) g
       \<and> (\<forall>u. axleId unselected = Some u \<and> axleId cC \<noteq> Some u \<and> axleId active \<noteq> Some u
              \<longrightarrow> fst (snd (evalStep all g t av ch)) u = av u)"
proof -
  let ?gA = "\<lparr>name = ''Gear A'', axleId = axleId cC\<rparr>"
  let ?gB = "\<lparr>name = ''Gear B'', axleId = axleId active\<rparr>"
  let ?p = "\<lambda>input. (speed input, torque input)"
  have sl: "stringOr (mode (params t) g) ''Locked'' = s" and nl: "s \<noteq> ''Locked''"
    using assms(5,6) by (auto simp: stringOr_def)
  have i: "tool_id c = tool_id t" and ty: "tool_type c = ''coupling''"
    and fA: "findConn ''Gear A'' c = Some ?gA" and fB: "findConn ''Gear B'' c = Some ?gB"
    and te: "teethA (params c) = Some n" "teethB (params c) = Some n"
    and iv: "invertDirection (params c) = Some False"
    using assms(9) by (simp_all add: couplingTool_def findConn_def emptyParams_def)
  have nz: "numberOr (Some n) 16 \<noteq> 0" by (simp add: numberOr_def)
  have hA: "hasInput c ?gA av = hasInput t cC av" and hB: "hasInput c ?gB av = hasInput t active av"
    by (simp_all add: hasInput_def i split: option.splits)
  have gv: "getValue av ?gA = getValue av cC" "getValue av ?gB = getValue av active"
    by (simp_all add: getValue_def)
  have es: "evaluateTool t g av = pairResult t cC active ?p ?p av"
    using assms(1,7) evaluateSelector_pair[OF assms(2,3,4), of g av] sl nl
    by (simp add: evaluateTool_def)
  have "evaluateCoupling c g av = pairResult t cC active ?p ?p av"
    unfolding evaluateCoupling_pair[OF fA fB] te iv
    using nz by (simp add: pairResult_def hA hB gv split: option.splits)
  with ty have ec: "evaluateTool c g av = pairResult t cC active ?p ?p av"
    by (simp add: evaluateTool_def)
  have 1: "evaluateTool t g av = evaluateTool c g av" using es ec by simp
  have nst: "tool_type t \<noteq> ''source''" and nsc: "tool_type c \<noteq> ''source''"
    using assms(1) ty by simp_all
  have sv: "stepValues c g av = stepValues t g av"
    using i 1 by (simp add: stepValues_def)
  have 2: "snd (evalStep all g t av ch) = snd (evalStep all g c av ch)"
    by (simp add: evalStep_eq[OF nst] evalStep_eq[OF nsc] sv)
  have 3: "status (fst (evalStep all g t av ch)) g = status (fst (evalStep all g c av ch)) g"
    by (simp add: evalStep_eq[OF nst] evalStep_eq[OF nsc] stepStatus_eq 1)
  have 4: "\<forall>u. axleId unselected = Some u \<and> axleId cC \<noteq> Some u \<and> axleId active \<noteq> Some u
              \<longrightarrow> fst (snd (evalStep all g t av ch)) u = av u"
  proof (intro allI impI)
    fix u
    assume u: "axleId unselected = Some u \<and> axleId cC \<noteq> Some u \<and> axleId active \<noteq> Some u"
    have "\<forall>out \<in> set (outputsOf (evaluateTool t g av)). out_axleId out \<noteq> u"
      unfolding es using u by (auto dest: outputsOf_pairResult)
    then have "stepValues t g av u = av u" by (rule stepValues_other)
    then show "fst (snd (evalStep all g t av ch)) u = av u"
      by (simp add: evalStep_eq[OF nst])
  qed
  from 1 2 3 4 show ?thesis by blast
qed


text \<open>The instance: Center on axle 2, A on the source-driven axle 1, B on axle 3, mode A.\<close>

theorem evaluateSelector_as_coupling_witness:
  "evaluateTool (selectorTool ''tool_1'' (Some 2) (Some 1) (Some 3) (\<lambda>g. Some ''A'')) 1
     [1 \<mapsto> \<lparr>speed = 2, torque = 3, outputBy = ''source''\<rparr>]
   = evaluateTool (couplingTool ''tool_1'' (Some 2) (Some 1) (Some 16) (Some 16) (Some False)) 1
       [1 \<mapsto> \<lparr>speed = 2, torque = 3, outputBy = ''source''\<rparr>]
   \<and> fst (snd (evalStep [] 1 (selectorTool ''tool_1'' (Some 2) (Some 1) (Some 3) (\<lambda>g. Some ''A''))
        [1 \<mapsto> \<lparr>speed = 2, torque = 3, outputBy = ''source''\<rparr>] False)) 3 = None"
proof -
  let ?t = "selectorTool ''tool_1'' (Some 2) (Some 1) (Some 3) (\<lambda>g. Some ''A'')"
  have h: "tool_type ?t = ''selector''"
    "findConn ''Center'' ?t = Some \<lparr>name = ''Center'', axleId = Some 2\<rparr>"
    "findConn ''A'' ?t = Some \<lparr>name = ''A'', axleId = Some 1\<rparr>"
    "findConn ''B'' ?t = Some \<lparr>name = ''B'', axleId = Some 3\<rparr>"
    "mode (params ?t) 1 = Some ''A''" "''A'' = ''A'' \<or> ''A'' = ''B''"
    "\<lparr>name = ''A'', axleId = Some 1\<rparr>
       = (if ''A'' = ''A'' then \<lparr>name = ''A'', axleId = Some 1\<rparr>
          else \<lparr>name = ''B'', axleId = Some 3\<rparr>)"
    "\<lparr>name = ''B'', axleId = Some 3\<rparr>
       = (if ''A'' = ''A'' then \<lparr>name = ''B'', axleId = Some 3\<rparr>
          else \<lparr>name = ''A'', axleId = Some 1\<rparr>)"
    "couplingTool ''tool_1'' (Some 2) (Some 1) (Some 16) (Some 16) (Some False)
       = couplingTool (tool_id ?t) (axleId \<lparr>name = ''Center'', axleId = Some 2\<rparr>)
           (axleId \<lparr>name = ''A'', axleId = Some 1\<rparr>) (Some 16) (Some 16) (Some False)"
    by (simp_all add: selectorTool_def findConn_def emptyParams_def)
  note f = evaluateSelector_as_coupling[OF h,
      of "[1 \<mapsto> \<lparr>speed = 2, torque = 3, outputBy = ''source''\<rparr>]" "[]" False]
  from f have 1: "evaluateTool ?t 1 [1 \<mapsto> \<lparr>speed = 2, torque = 3, outputBy = ''source''\<rparr>]
      = evaluateTool (couplingTool ''tool_1'' (Some 2) (Some 1) (Some 16) (Some 16) (Some False)) 1
          [1 \<mapsto> \<lparr>speed = 2, torque = 3, outputBy = ''source''\<rparr>]"
    by (rule conjunct1)
  from f have "\<forall>u. axleId \<lparr>name = ''B'', axleId = Some 3\<rparr> = Some u
          \<and> axleId \<lparr>name = ''Center'', axleId = Some 2\<rparr> \<noteq> Some u
          \<and> axleId \<lparr>name = ''A'', axleId = Some 1\<rparr> \<noteq> Some u
        \<longrightarrow> fst (snd (evalStep [] 1 ?t
              [1 \<mapsto> \<lparr>speed = 2, torque = 3, outputBy = ''source''\<rparr>] False)) u
            = [1 \<mapsto> \<lparr>speed = 2, torque = 3, outputBy = ''source''\<rparr>] u"
    by (elim conjE)
  then have "fst (snd (evalStep [] 1 ?t
              [1 \<mapsto> \<lparr>speed = 2, torque = 3, outputBy = ''source''\<rparr>] False)) 3 = None"
    by simp
  with 1 show ?thesis by (rule conjI)
qed


text \<open>
  With B bound to the same axle as Center, the Selector in mode A writes the axle of its
  unselected side B.
\<close>

theorem selector_shared_axle_counterexample:
  "findConn ''B'' (selectorTool ''tool_1'' (Some 2) (Some 1) (Some 2) (\<lambda>g. Some ''A''))
     = Some \<lparr>name = ''B'', axleId = Some 2\<rparr>
   \<and> [1 \<mapsto> \<lparr>speed = 1, torque = 1, outputBy = ''source''\<rparr>] (2 :: nat) = None
   \<and> fst (snd (evalStep [] 1 (selectorTool ''tool_1'' (Some 2) (Some 1) (Some 2) (\<lambda>g. Some ''A''))
        [1 \<mapsto> \<lparr>speed = 1, torque = 1, outputBy = ''source''\<rparr>] False)) 2
     = Some \<lparr>speed = 1, torque = 1, outputBy = ''tool_1''\<rparr>"
  by (simp add: run_defs)




text \<open>
  The instance of C7: axle 2 holds the value of the Coupling \<open>tool_1\<close>; a second
  Coupling in conflict with it, the Coupling itself and a Locked Selector on that axle
  all leave the entry as it is.
\<close>

theorem axleValues_write_once_witness:
  "[1 \<mapsto> \<lparr>speed = 1, torque = 1, outputBy = ''source''\<rparr>,
    2 \<mapsto> \<lparr>speed = - 0.8, torque = 1.25, outputBy = ''tool_1''\<rparr>] 2
     = Some \<lparr>speed = - 0.8, torque = 1.25, outputBy = ''tool_1''\<rparr>
   \<and> fst (snd (evalStep [] 1
         (couplingTool ''tool_2'' (Some 1) (Some 2) (Some 8) (Some 24) (Some True))
         [1 \<mapsto> \<lparr>speed = 1, torque = 1, outputBy = ''source''\<rparr>,
          2 \<mapsto> \<lparr>speed = - 0.8, torque = 1.25, outputBy = ''tool_1''\<rparr>] True)) 2
     = Some \<lparr>speed = - 0.8, torque = 1.25, outputBy = ''tool_1''\<rparr>
   \<and> fst (snd (sweep [] 1
         [couplingTool ''tool_1'' (Some 1) (Some 2) (Some 16) (Some 20) (Some True),
          couplingTool ''tool_2'' (Some 1) (Some 2) (Some 8) (Some 24) (Some True),
          selectorTool ''tool_3'' (Some 2) None None (\<lambda>g. Some ''Locked'')]
         [1 \<mapsto> \<lparr>speed = 1, torque = 1, outputBy = ''source''\<rparr>,
          2 \<mapsto> \<lparr>speed = - 0.8, torque = 1.25, outputBy = ''tool_1''\<rparr>] True)) 2
     = Some \<lparr>speed = - 0.8, torque = 1.25, outputBy = ''tool_1''\<rparr>
   \<and> fst (snd (propagate 1
         [couplingTool ''tool_1'' (Some 1) (Some 2) (Some 16) (Some 20) (Some True),
          couplingTool ''tool_2'' (Some 1) (Some 2) (Some 8) (Some 24) (Some True),
          selectorTool ''tool_3'' (Some 2) None None (\<lambda>g. Some ''Locked'')]
         [1 \<mapsto> \<lparr>speed = 1, torque = 1, outputBy = ''source''\<rparr>,
          2 \<mapsto> \<lparr>speed = - 0.8, torque = 1.25, outputBy = ''tool_1''\<rparr>] True 0)) 2
     = Some \<lparr>speed = - 0.8, torque = 1.25, outputBy = ''tool_1''\<rparr>"
  using axleValues_write_once
    [of "[1 \<mapsto> \<lparr>speed = 1, torque = 1, outputBy = ''source''\<rparr>,
          2 \<mapsto> \<lparr>speed = - 0.8, torque = 1.25, outputBy = ''tool_1''\<rparr>]"
        2 "\<lparr>speed = - 0.8, torque = 1.25, outputBy = ''tool_1''\<rparr>"
        "[]" 1 "couplingTool ''tool_2'' (Some 1) (Some 2) (Some 8) (Some 24) (Some True)" True
        "[couplingTool ''tool_1'' (Some 1) (Some 2) (Some 16) (Some 20) (Some True),
          couplingTool ''tool_2'' (Some 1) (Some 2) (Some 8) (Some 24) (Some True),
          selectorTool ''tool_3'' (Some 2) None None (\<lambda>g. Some ''Locked'')]"
        0]
  by simp




text \<open>
  C2 (as amended). For a Differential whose Body, A and B are bound to three different
  axles, each of the three formulas gives the third value from two known ones, and
  feeding the computed value back beside one of the two reproduces the speed of the
  other. The torque is not reproduced: from Body and A the evaluator gives B the torque
  \<open>(tBody + tA) / 2\<close>, and from Body and that B it gives A the torque
  \<open>(tBody + (tBody + tA) / 2) / 2\<close>; from A and B it gives Body the torque
  \<open>2 \<times> (tA + tB)\<close>, and from that Body and A it gives B the torque
  \<open>(2 \<times> (tA + tB) + tA) / 2\<close>.
\<close>

theorem evaluateDifferential_round_trip:
  assumes "findConn ''Body'' t = Some cBody" and "findConn ''A'' t = Some cA"
    and "findConn ''B'' t = Some cB"
    and "axleId cBody = Some b" and "axleId cA = Some a" and "axleId cB = Some c"
    and "distinct [b, a, c]"
    and "p \<noteq> tool_id t"
  shows "evaluateDifferential t g
           [b \<mapsto> \<lparr>speed = sBody, torque = tBody, outputBy = p\<rparr>,
            a \<mapsto> \<lparr>speed = sA, torque = tA, outputBy = p\<rparr>]
         = outputResult
             \<lparr>out_axleId = c, out_speed = 2 * sBody - sA, out_torque = (tBody + tA) / 2\<rparr>
       \<and> evaluateDifferential t g
           [b \<mapsto> \<lparr>speed = sBody, torque = tBody, outputBy = p\<rparr>,
            c \<mapsto> \<lparr>speed = 2 * sBody - sA, torque = (tBody + tA) / 2, outputBy = p\<rparr>]
         = outputResult
             \<lparr>out_axleId = a, out_speed = sA, out_torque = (tBody + (tBody + tA) / 2) / 2\<rparr>
       \<and> evaluateDifferential t g
           [a \<mapsto> \<lparr>speed = sA, torque = tA, outputBy = p\<rparr>,
            c \<mapsto> \<lparr>speed = 2 * sBody - sA, torque = (tBody + tA) / 2, outputBy = p\<rparr>]
         = outputResult
             \<lparr>out_axleId = b, out_speed = sBody, out_torque = 2 * (tA + (tBody + tA) / 2)\<rparr>
       \<and> evaluateDifferential t g
           [a \<mapsto> \<lparr>speed = sA, torque = tA, outputBy = p\<rparr>,
            c \<mapsto> \<lparr>speed = sB, torque = tB, outputBy = p\<rparr>]
         = outputResult
             \<lparr>out_axleId = b, out_speed = (sA + sB) / 2, out_torque = 2 * (tA + tB)\<rparr>
       \<and> evaluateDifferential t g
           [b \<mapsto> \<lparr>speed = (sA + sB) / 2, torque = 2 * (tA + tB), outputBy = p\<rparr>,
            a \<mapsto> \<lparr>speed = sA, torque = tA, outputBy = p\<rparr>]
         = outputResult
             \<lparr>out_axleId = c, out_speed = sB, out_torque = (2 * (tA + tB) + tA) / 2\<rparr>
       \<and> evaluateDifferential t g
           [b \<mapsto> \<lparr>speed = (sA + sB) / 2, torque = 2 * (tA + tB), outputBy = p\<rparr>,
            c \<mapsto> \<lparr>speed = sB, torque = tB, outputBy = p\<rparr>]
         = outputResult
             \<lparr>out_axleId = a, out_speed = sA, out_torque = (2 * (tA + tB) + tB) / 2\<rparr>"
  using assms
  by (simp add: evaluateDifferential_def hasInput_def getValue_def)
     (simp add: add_divide_distrib)

text \<open>
  The instance of the specification: Body = (2, 1) and A = (3, 2) give B = (1, 1.5), and
  Body = (2, 1) with that B give A the speed 3 and the torque 1.25.
\<close>

theorem evaluateDifferential_round_trip_witness:
  "evaluateDifferential (differentialTool ''tool_1'' (Some 1) (Some 2) (Some 3)) 1
     [1 \<mapsto> \<lparr>speed = 2, torque = 1, outputBy = ''source''\<rparr>,
      2 \<mapsto> \<lparr>speed = 3, torque = 2, outputBy = ''source''\<rparr>]
   = outputResult \<lparr>out_axleId = 3, out_speed = 1, out_torque = 1.5\<rparr>
   \<and> evaluateDifferential (differentialTool ''tool_1'' (Some 1) (Some 2) (Some 3)) 1
     [1 \<mapsto> \<lparr>speed = 2, torque = 1, outputBy = ''source''\<rparr>,
      3 \<mapsto> \<lparr>speed = 1, torque = 1.5, outputBy = ''source''\<rparr>]
   = outputResult \<lparr>out_axleId = 2, out_speed = 3, out_torque = 1.25\<rparr>"
  using evaluateDifferential_round_trip
    [of "differentialTool ''tool_1'' (Some 1) (Some 2) (Some 3)"
        "\<lparr>name = ''Body'', axleId = Some 1\<rparr>" "\<lparr>name = ''A'', axleId = Some 2\<rparr>"
        "\<lparr>name = ''B'', axleId = Some 3\<rparr>" 1 2 3 "''source''" 1 2 1 3 2 0 0]
  by (simp add: differentialTool_def emptyParams_def findConn_def)

text \<open>
  The claim has Body = (2, 1) and B = (1, 1.5) give A = (3, 2); the evaluator gives A the
  torque 1.25.
\<close>

theorem evaluateDifferential_torque_counterexample:
  "evaluateDifferential (differentialTool ''tool_1'' (Some 1) (Some 2) (Some 3)) 1
     [1 \<mapsto> \<lparr>speed = 2, torque = 1, outputBy = ''source''\<rparr>,
      3 \<mapsto> \<lparr>speed = 1, torque = 1.5, outputBy = ''source''\<rparr>]
   = outputResult \<lparr>out_axleId = 2, out_speed = 3, out_torque = 1.25\<rparr>
   \<and> (1.25 :: real) \<noteq> 2"
  by (simp add: evaluateDifferential_def differentialTool_def emptyParams_def findConn_def
        hasInput_def getValue_def)

section \<open>Convergence of the propagation\<close>

lemma map_le_neq: "av \<subseteq>\<^sub>m av1 \<Longrightarrow> av1 \<subseteq>\<^sub>m av2 \<Longrightarrow> av1 \<noteq> av \<Longrightarrow> av2 \<noteq> av"
  by (metis map_le_antisym)

lemma stepValues_le: "av \<subseteq>\<^sub>m stepValues t g av"
  by (auto simp: map_le_def stepValues_def dom_def fold_writeOutput_keeps)

lemma sweepValues_le: "av \<subseteq>\<^sub>m sweepValues g ts av"
proof (induction ts arbitrary: av)
  case Nil
  show ?case by simp
next
  case (Cons t ts)
  show ?case
    using Cons.IH[of "if tool_type t = ''source'' then av else stepValues t g av"]
      stepValues_le[of av t g]
    by (auto intro: map_le_trans)
qed

lemma sweep_eq:
  "sweep all g ts av ch = (ts', av', ch') \<Longrightarrow>
     av' = sweepValues g ts av \<and> ch' = (ch \<or> sweepValues g ts av \<noteq> av)"
proof (induction ts arbitrary: av ch ts' av' ch')
  case Nil
  then show ?case by auto
next
  case (Cons t ts)
  obtain t1 av1 ch1 where s: "evalStep all g t av ch = (t1, av1, ch1)"
    by (cases "evalStep all g t av ch") auto
  obtain ts2 av2 ch2 where r: "sweep all g ts av1 ch1 = (ts2, av2, ch2)"
    by (cases "sweep all g ts av1 ch1") auto
  from Cons.prems s r have e: "av' = av2" "ch' = ch2" by auto
  from Cons.IH[OF r] have i: "av2 = sweepValues g ts av1" "ch2 = (ch1 \<or> sweepValues g ts av1 \<noteq> av1)"
    by auto
  show ?case
  proof (cases "tool_type t = ''source''")
    case True
    with s have "av1 = av" "ch1 = ch" by (simp_all add: evalStep_source)
    with e i True show ?thesis by simp
  next
    case False
    with s have a: "av1 = stepValues t g av" "ch1 = (ch \<or> stepValues t g av \<noteq> av)"
      by (auto simp add: evalStep_eq)
    have le1: "av \<subseteq>\<^sub>m av1" unfolding a(1) by (rule stepValues_le)
    have le2: "av1 \<subseteq>\<^sub>m sweepValues g ts av1" by (rule sweepValues_le)
    have k: "(av1 \<noteq> av \<or> sweepValues g ts av1 \<noteq> av1) = (sweepValues g ts av1 \<noteq> av)"
    proof (cases "av1 = av")
      case True
      then show ?thesis by simp
    next
      case F: False
      with map_le_neq[OF le1 le2 F] show ?thesis by simp
    qed
    have v: "sweepValues g (t # ts) av = sweepValues g ts av1"
      using False a(1) by simp
    have "ch' = (ch \<or> av1 \<noteq> av \<or> sweepValues g ts av1 \<noteq> av1)"
      unfolding e(2) i(2) a(2) a(1)[symmetric] by blast
    then have "ch' = (ch \<or> sweepValues g ts av1 \<noteq> av)"
      using k by blast
    with e(1) i(1) v show ?thesis by simp
  qed
qed

lemma sweepValues_sameTool:
  "list_all2 sameTool ts ts' \<Longrightarrow> sweepValues g ts av = sweepValues g ts' av"
proof (induction ts ts' arbitrary: av rule: list_all2_induct)
  case Nil
  show ?case by simp
next
  case (Cons t ts t' ts')
  from Cons.hyps(1) have "tool_type t = tool_type t'" by (simp add: sameTool_def)
  with Cons.hyps(1) Cons.IH show ?case
    by (simp add: stepValues_sameTool[of t t'])
qed

lemma sweepTimes_eq:
  "sweepTimes n g ts av = (ts', av') \<Longrightarrow>
     list_all2 sameTool ts' ts \<and> av' = (sweepValues g ts ^^ n) av"
proof (induction n arbitrary: ts av)
  case 0
  then show ?case by (auto simp: list_all2_refl)
next
  case (Suc n)
  obtain ts1 av1 ch1 where s: "sweep ts g ts av False = (ts1, av1, ch1)"
    by (cases "sweep ts g ts av False") auto
  with Suc.prems have r: "sweepTimes n g ts1 av1 = (ts', av')" by simp
  from sweep_sameTool[OF s] have st: "list_all2 sameTool ts1 ts" .
  from sweep_eq[OF s] have a: "av1 = sweepValues g ts av" by simp
  from Suc.IH[OF r] have "list_all2 sameTool ts' ts1" "av' = (sweepValues g ts1 ^^ n) av1"
    by auto
  moreover have "sweepValues g ts1 = sweepValues g ts"
    using sweepValues_sameTool[OF st] by auto
  ultimately show ?case
    using st a by (auto simp: funpow_swap1 intro: list_all2_trans[OF sameTool_trans])
qed


lemma sweepTimes_Suc:
  "sweep ts g ts av False = (ts1, av1, ch1) \<Longrightarrow> sweepTimes (Suc n) g ts av = sweepTimes n g ts1 av1"
  by simp

lemma propagate_sweeps:
  "propagate g ts av ch it = (ts', av', ch', it') \<Longrightarrow>
     \<exists>n. it' = it + n \<and> sweepTimes n g ts av = (ts', av')
       \<and> (n = 0 \<longrightarrow> ch' = ch \<and> \<not> (ch \<and> it < maxIterations))
       \<and> (0 < n \<longrightarrow> ch \<and> it < maxIterations \<and> it' \<le> maxIterations
              \<and> ch' = (av' \<noteq> snd (sweepTimes (n - 1) g ts av)))
       \<and> (\<forall>k. Suc k < n \<longrightarrow> snd (sweepTimes (Suc k) g ts av) \<noteq> snd (sweepTimes k g ts av))
       \<and> (ch' \<longrightarrow> \<not> it' < maxIterations)"
proof (induction g ts av ch it arbitrary: ts' av' ch' it' rule: propagate.induct)
  case (1 g ts av ch it)
  show ?case
  proof (cases "ch \<and> it < maxIterations")
    case False
    with "1.prems" have "ts' = ts" "av' = av" "ch' = ch" "it' = it"
      by (auto simp: propagate_exit)
    with False show ?thesis by (intro exI[of _ 0]) auto
  next
    case True
    obtain ts1 av1 ch1 where s: "sweep ts g ts av False = (ts1, av1, ch1)"
      by (cases "sweep ts g ts av False") auto
    from True s "1.prems" have p: "propagate g ts1 av1 ch1 (it + 1) = (ts', av', ch', it')"
      by (simp add: propagate_continue)
    from "1.IH"[OF True s[symmetric] refl p] obtain n1 where
      n1: "it' = it + 1 + n1" "sweepTimes n1 g ts1 av1 = (ts', av')"
        "n1 = 0 \<longrightarrow> ch' = ch1 \<and> \<not> (ch1 \<and> it + 1 < maxIterations)"
        "0 < n1 \<longrightarrow> ch1 \<and> it + 1 < maxIterations \<and> it' \<le> maxIterations
              \<and> ch' = (av' \<noteq> snd (sweepTimes (n1 - 1) g ts1 av1))"
        "\<forall>k. Suc k < n1 \<longrightarrow> snd (sweepTimes (Suc k) g ts1 av1) \<noteq> snd (sweepTimes k g ts1 av1)"
        "ch' \<longrightarrow> \<not> it' < maxIterations"
      by auto
    from sweep_eq[OF s] have c1: "ch1 = (av1 \<noteq> av)" by simp
    have S: "sweepTimes (Suc m) g ts av = sweepTimes m g ts1 av1" for m
      using s by simp
    have a: "it' = it + Suc n1" using n1(1) by simp
    have b: "sweepTimes (Suc n1) g ts av = (ts', av')" using n1(2) S by simp
    have c: "it' \<le> maxIterations \<and> ch' = (av' \<noteq> snd (sweepTimes (Suc n1 - 1) g ts av))"
    proof (cases "n1 = 0")
      case Z: True
      with n1(2) have "av' = av1" by simp
      with Z n1(1,3) c1 True show ?thesis by simp
    next
      case NZ: False
      then obtain m where m: "n1 = Suc m" by (cases n1) auto
      with n1(4) S[of m] show ?thesis by simp
    qed
    have d: "\<forall>k. Suc k < Suc n1 \<longrightarrow>
               snd (sweepTimes (Suc k) g ts av) \<noteq> snd (sweepTimes k g ts av)"
    proof (intro allI impI)
      fix k
      assume k: "Suc k < Suc n1"
      show "snd (sweepTimes (Suc k) g ts av) \<noteq> snd (sweepTimes k g ts av)"
      proof (cases k)
        case 0
        from k 0 n1(4) have "ch1" by simp
        with c1 0 s show ?thesis by simp
      next
        case (Suc k')
        with k n1(5) have "snd (sweepTimes (Suc k') g ts1 av1) \<noteq> snd (sweepTimes k' g ts1 av1)"
          by simp
        with Suc S[of "Suc k'"] S[of k'] show ?thesis by simp
      qed
    qed
    from a b c d True n1(6) show ?thesis
      by (intro exI[of _ "Suc n1"]) simp
  qed
qed


lemma sweepValues_inv:
  assumes "\<And>t a. t \<in> set ts \<Longrightarrow> tool_type t \<noteq> ''source'' \<Longrightarrow> P a \<Longrightarrow> P (stepValues t g a)"
    and "P av"
  shows "P (sweepValues g ts av)"
  using assms
proof (induction ts arbitrary: av)
  case Nil
  then show ?case by simp
next
  case (Cons t ts)
  have "P (if tool_type t = ''source'' then av else stepValues t g av)"
    using Cons.prems by simp
  with Cons.IH[of "if tool_type t = ''source'' then av else stepValues t g av"] Cons.prems(1)
  show ?case by simp
qed

lemma sweepValues_mem:
  assumes "\<And>t a. t \<in> set ts \<Longrightarrow> tool_type t \<noteq> ''source'' \<Longrightarrow> P a \<Longrightarrow> P (stepValues t g a)"
    and "P av" and "t \<in> set ts" and "tool_type t \<noteq> ''source''"
  shows "\<exists>avt. P avt \<and> av \<subseteq>\<^sub>m avt \<and> stepValues t g avt \<subseteq>\<^sub>m sweepValues g ts av"
  using assms
proof (induction ts arbitrary: av)
  case Nil
  then show ?case by simp
next
  case (Cons u ts)
  let ?av1 = "if tool_type u = ''source'' then av else stepValues u g av"
  have P1: "P ?av1" using Cons.prems(1,2) by simp
  have le1: "av \<subseteq>\<^sub>m ?av1" using stepValues_le[of av u g] by simp
  show ?case
  proof (cases "t = u")
    case True
    with Cons.prems(4) have "sweepValues g (u # ts) av = sweepValues g ts (stepValues t g av)"
      by simp
    with sweepValues_le[of "stepValues t g av" g ts] Cons.prems(2) show ?thesis
      by (intro exI[of _ av]) simp
  next
    case False
    with Cons.prems(3) have "t \<in> set ts" by simp
    from Cons.IH[OF _ P1 this Cons.prems(4)] Cons.prems(1)
    obtain avt where "P avt" "?av1 \<subseteq>\<^sub>m avt" "stepValues t g avt \<subseteq>\<^sub>m sweepValues g ts ?av1"
      by auto
    with le1 show ?thesis
      by (intro exI[of _ avt]) (auto intro: map_le_trans)
  qed
qed

text \<open>One link of the chain.\<close>

lemma chain_eval:
  assumes "chainLink i t" and "tool_id t = lid i" and "1 \<le> i" and "i \<le> N"
    and "inj_on lid {1..N}" and "\<forall>i \<in> {1..N}. lid i \<noteq> ''source''"
    and "chainInv N lid av"
  shows "(av i = None \<longrightarrow> evaluateTool t g av = flaggedResult)
       \<and> (av i \<noteq> None \<longrightarrow>
            (\<exists>s q. evaluateTool t g av
                     = outputResult \<lparr>out_axleId = Suc i, out_speed = s, out_torque = q\<rparr>))"
proof -
  from assms(1) obtain cA cB where
    ty: "tool_type t = ''coupling''"
    and f: "findConn ''Gear A'' t = Some cA" "findConn ''Gear B'' t = Some cB"
    and o: "(axleId cA = Some i \<and> axleId cB = Some (Suc i))
           \<or> (axleId cA = Some (Suc i) \<and> axleId cB = Some i)"
    unfolding chainLink_def by blast
  have lo: "hasInput t c av = (av i \<noteq> None)" if "axleId c = Some i" for c
  proof (cases "av i")
    case None
    with that show ?thesis by (simp add: hasInput_def)
  next
    case (Some v)
    with assms(7) have ob: "outputBy v = (if i = 1 then ''source'' else lid (i - 1))"
      unfolding chainInv_def by blast
    have "outputBy v \<noteq> lid i"
    proof (cases "i = 1")
      case True
      from assms(3,4,6) have "lid i \<noteq> ''source''" by simp
      with ob True show ?thesis by simp
    next
      case False
      with assms(3,4) have "i - 1 \<in> {1..N}" "i \<in> {1..N}" "i - 1 \<noteq> i" by auto
      with assms(5) have "lid (i - 1) \<noteq> lid i" by (metis inj_onD)
      with ob False show ?thesis by simp
    qed
    with that Some assms(2) show ?thesis by (simp add: hasInput_def)
  qed
  have hi: "\<not> hasInput t c av" if "axleId c = Some (Suc i)" for c
  proof (cases "av (Suc i)")
    case None
    with that show ?thesis by (simp add: hasInput_def)
  next
    case (Some v)
    with assms(7) have "outputBy v = (if Suc i = 1 then ''source'' else lid (Suc i - 1))"
      unfolding chainInv_def by blast
    then have "outputBy v = lid i" using assms(3) by simp
    with that Some assms(2) show ?thesis by (simp add: hasInput_def)
  qed
  have gv: "getValue av c = av i" if "axleId c = Some i" for c
    using that by (simp add: getValue_def)
  have e: "evaluateTool t g av = evaluateCoupling t g av"
    using ty by (simp add: evaluateTool_def)
  let ?F = "\<lambda>input. ((if invertDirection (params t) = Some False then 1 else - 1) * speed input
                         * (numberOr (teethA (params t)) 16 / numberOr (teethB (params t)) 16),
                       torque input
                         * (numberOr (teethB (params t)) 16 / numberOr (teethA (params t)) 16))"
  let ?H = "\<lambda>input. ((if invertDirection (params t) = Some False then 1 else - 1) * speed input
                         * (numberOr (teethB (params t)) 16 / numberOr (teethA (params t)) 16),
                       torque input
                         * (numberOr (teethA (params t)) 16 / numberOr (teethB (params t)) 16))"
  have p: "evaluateTool t g av = pairResult t cA cB ?F ?H av"
    unfolding e by (rule evaluateCoupling_pair[OF f])
  from o show ?thesis
  proof
    assume a: "axleId cA = Some i \<and> axleId cB = Some (Suc i)"
    then have h: "hasInput t cA av = (av i \<noteq> None)" "\<not> hasInput t cB av"
      "getValue av cA = av i" "axleId cB = Some (Suc i)"
      using lo[of cA] hi[of cB] gv[of cA] by auto
    show ?thesis
    proof (cases "av i")
      case None
      with h show ?thesis unfolding p pairResult_def by simp
    next
      case (Some v)
      with h show ?thesis unfolding p pairResult_def by simp
    qed
  next
    assume a: "axleId cA = Some (Suc i) \<and> axleId cB = Some i"
    then have h: "hasInput t cB av = (av i \<noteq> None)" "\<not> hasInput t cA av"
      "getValue av cB = av i" "axleId cA = Some (Suc i)"
      using lo[of cB] hi[of cA] gv[of cB] by auto
    show ?thesis
    proof (cases "av i")
      case None
      with h show ?thesis unfolding p pairResult_def by simp
    next
      case (Some v)
      with h show ?thesis unfolding p pairResult_def by simp
    qed
  qed
qed

lemma chain_step:
  assumes "chainLink i t" and "tool_id t = lid i" and "1 \<le> i" and "i \<le> N"
    and "inj_on lid {1..N}" and "\<forall>i \<in> {1..N}. lid i \<noteq> ''source''"
    and "chainInv N lid av"
  shows "chainInv N lid (stepValues t g av)"
    and "av i \<noteq> None \<Longrightarrow> stepValues t g av (Suc i) \<noteq> None"
    and "av i = None \<or> av (Suc i) \<noteq> None \<Longrightarrow> stepValues t g av = av"
proof -
  note ev = chain_eval[OF assms, of g]
  have sv: "\<exists>s q. stepValues t g av =
              (if av i \<noteq> None \<and> av (Suc i) = None
               then av(Suc i \<mapsto> \<lparr>speed = s, torque = q, outputBy = lid i\<rparr>) else av)"
  proof (cases "av i")
    case None
    with ev show ?thesis by (simp add: stepValues_def outputsOf_def)
  next
    case (Some v)
    with ev obtain s q where
      "evaluateTool t g av = outputResult \<lparr>out_axleId = Suc i, out_speed = s, out_torque = q\<rparr>"
      by auto
    then have "stepValues t g av
         = writeOutput (lid i) \<lparr>out_axleId = Suc i, out_speed = s, out_torque = q\<rparr> av"
      by (simp add: stepValues_def outputsOf_def assms(2))
    with Some show ?thesis
      by (cases "av (Suc i)") (auto simp: writeOutput_def)
  qed
  then obtain s q where sq: "stepValues t g av =
              (if av i \<noteq> None \<and> av (Suc i) = None
               then av(Suc i \<mapsto> \<lparr>speed = s, torque = q, outputBy = lid i\<rparr>) else av)"
    by blast
  show "chainInv N lid (stepValues t g av)"
  proof (cases "av i \<noteq> None \<and> av (Suc i) = None")
    case False
    with sq have "stepValues t g av = av" by (simp only: if_False)
    with assms(7) show ?thesis by simp
  next
    case True
    with sq have new: "stepValues t g av = av(Suc i \<mapsto> \<lparr>speed = s, torque = q, outputBy = lid i\<rparr>)"
      by simp
    have i1: "Suc i \<noteq> 1" using assms(3) by simp
    have "stepValues t g av 1 \<noteq> None"
      using assms(7) i1 unfolding new chainInv_def by simp
    moreover have "1 \<le> a \<and> a \<le> N + 1 \<and> outputBy v = (if a = 1 then ''source'' else lid (a - 1))"
      if "stepValues t g av a = Some v" for a v
    proof (cases "a = Suc i")
      case True
      with that new have "outputBy v = lid i" by auto
      with True assms(3,4) show ?thesis by simp
    next
      case False
      with that new have "av a = Some v" by simp
      with assms(7) show ?thesis unfolding chainInv_def by blast
    qed
    ultimately show ?thesis unfolding chainInv_def by blast
  qed
  show "stepValues t g av (Suc i) \<noteq> None" if "av i \<noteq> None"
    using that sq by (cases "av (Suc i)") simp_all
  show "stepValues t g av = av" if "av i = None \<or> av (Suc i) \<noteq> None"
    using that sq by auto
qed

lemma chain_sweep:
  assumes ct: "chainTools N lid ts" and inv: "chainInv N lid av"
  shows "chainInv N lid (sweepValues g ts av)"
    and "1 \<le> i \<Longrightarrow> i \<le> N \<Longrightarrow> av i \<noteq> None \<Longrightarrow> sweepValues g ts av (Suc i) \<noteq> None"
    and "(\<forall>a. 1 \<le> a \<and> a \<le> N + 1 \<longrightarrow> av a \<noteq> None) \<Longrightarrow> sweepValues g ts av = av"
proof -
  from ct have inj: "inj_on lid {1..N}" and ns: "\<forall>i \<in> {1..N}. lid i \<noteq> ''source''"
    and links: "\<And>t. t \<in> set ts \<Longrightarrow> tool_type t \<noteq> ''source'' \<Longrightarrow>
                  \<exists>i. 1 \<le> i \<and> i \<le> N \<and> chainLink i t \<and> tool_id t = lid i"
    and all: "\<And>i. 1 \<le> i \<Longrightarrow> i \<le> N \<Longrightarrow> \<exists>t \<in> set ts. chainLink i t \<and> tool_id t = lid i"
    unfolding chainTools_def by blast+
  have pres: "chainInv N lid (stepValues t g a)"
    if "t \<in> set ts" "tool_type t \<noteq> ''source''" "chainInv N lid a" for t a
  proof -
    from links[OF that(1,2)] obtain j where
      j: "1 \<le> j" "j \<le> N" "chainLink j t" "tool_id t = lid j" by blast
    from chain_step(1)[OF j(3,4,1,2) inj ns that(3)] show ?thesis .
  qed
  show "chainInv N lid (sweepValues g ts av)"
    by (rule sweepValues_inv[where P="chainInv N lid", OF pres inv])
  show "sweepValues g ts av (Suc i) \<noteq> None" if i: "1 \<le> i" "i \<le> N" and a: "av i \<noteq> None"
  proof -
    from all[OF i] obtain t where t: "t \<in> set ts" "chainLink i t" "tool_id t = lid i" by blast
    from t(2) have nst: "tool_type t \<noteq> ''source''" by (simp add: chainLink_def)
    from sweepValues_mem[where P="chainInv N lid", OF pres inv t(1) nst]
    obtain avt where avt: "chainInv N lid avt" "av \<subseteq>\<^sub>m avt"
      "stepValues t g avt \<subseteq>\<^sub>m sweepValues g ts av" by blast
    from a avt(2) have "avt i \<noteq> None" by (auto simp: map_le_def dom_def)
    from chain_step(2)[OF t(2,3) i inj ns avt(1) this]
    have "stepValues t g avt (Suc i) \<noteq> None" .
    with avt(3) show ?thesis by (auto simp: map_le_def dom_def)
  qed
  show "sweepValues g ts av = av" if full: "\<forall>a. 1 \<le> a \<and> a \<le> N + 1 \<longrightarrow> av a \<noteq> None"
  proof (rule sweepValues_inv[where P="\<lambda>a. a = av"])
    fix t a
    assume t: "t \<in> set ts" "tool_type t \<noteq> ''source''" and a: "a = av"
    from links[OF t] obtain j where
      j: "1 \<le> j" "j \<le> N" "chainLink j t" "tool_id t = lid j" by blast
    from full j have "av (Suc j) \<noteq> None" by simp
    with chain_step(3)[OF j(3,4,1,2) inj ns inv] a show "stepValues t g a = av" by simp
  qed simp
qed

lemma chain_iter:
  assumes ct: "chainTools N lid ts" and inv: "chainInv N lid av"
  shows "chainInv N lid ((sweepValues g ts ^^ n) av)
       \<and> (\<forall>a. 1 \<le> a \<and> a \<le> min (Suc n) (N + 1) \<longrightarrow> (sweepValues g ts ^^ n) av a \<noteq> None)"
proof (induction n)
  case 0
  from inv have "av 1 \<noteq> None" by (simp add: chainInv_def)
  moreover have "a = 1" if "1 \<le> a \<and> a \<le> min (Suc 0) (N + 1)" for a
    using that by simp
  ultimately show ?case using inv by auto
next
  case (Suc n)
  let ?a = "(sweepValues g ts ^^ n) av"
  from Suc have i: "chainInv N lid ?a"
    and r: "\<And>a. 1 \<le> a \<Longrightarrow> a \<le> min (Suc n) (N + 1) \<Longrightarrow> ?a a \<noteq> None" by auto
  from chain_sweep(1)[OF ct i, where g=g] have i': "chainInv N lid (sweepValues g ts ?a)" .
  have "sweepValues g ts ?a a \<noteq> None" if a: "1 \<le> a \<and> a \<le> min (Suc (Suc n)) (N + 1)" for a
  proof (cases "a = 1")
    case True
    with i' show ?thesis by (simp add: chainInv_def)
  next
    case False
    with a obtain j where j: "a = Suc j" "1 \<le> j" by (cases a) auto
    with a have "j \<le> min (Suc n) (N + 1)" "j \<le> N" by auto
    with r[OF j(2)] have "?a j \<noteq> None" by simp
    from chain_sweep(2)[OF ct i j(2) \<open>j \<le> N\<close> this, where g=g] j(1) show ?thesis by simp
  qed
  with i' show ?case by simp
qed

lemma chain_fixed_full:
  assumes ct: "chainTools N lid ts" and inv: "chainInv N lid av"
    and fx: "sweepValues g ts av = av"
  shows "1 \<le> a \<Longrightarrow> a \<le> N + 1 \<Longrightarrow> av a \<noteq> None"
proof (induction a)
  case 0
  then show ?case by simp
next
  case (Suc j)
  show ?case
  proof (cases "j = 0")
    case True
    with inv show ?thesis by (simp add: chainInv_def)
  next
    case False
    with Suc have "av j \<noteq> None" "1 \<le> j" "j \<le> N" by auto
    from chain_sweep(2)[OF ct inv this(2,3,1), where g=g] fx show ?thesis by simp
  qed
qed

lemma chainInv_dom:
  "chainInv N lid av \<Longrightarrow> (\<forall>a. 1 \<le> a \<and> a \<le> N + 1 \<longrightarrow> av a \<noteq> None) \<Longrightarrow> dom av = {1..N + 1}"
  by (auto simp: chainInv_def dom_def)

lemma chainInv_seed: "chainInv N lid [1 \<mapsto> \<lparr>speed = 1, torque = 1, outputBy = ''source''\<rparr>]"
  by (simp add: chainInv_def)

lemma snd_sweepTimes: "snd (sweepTimes n g ts av) = (sweepValues g ts ^^ n) av"
  using sweepTimes_eq[of n g ts av] by (cases "sweepTimes n g ts av") simp

lemma chain_propagate:
  assumes ct: "chainTools N lid ts" and inv: "chainInv N lid av" and N: "N < maxIterations"
    and p: "propagate g ts av True 0 = (ts', av', ch', n)"
  shows "n \<le> N + 1 \<and> \<not> ch' \<and> dom av' = {1..N + 1}
       \<and> dom (snd (sweepTimes N g ts av)) = {1..N + 1}"
proof -
  let ?F = "sweepValues g ts"
  from propagate_sweeps[OF p] obtain m where
    m: "n = m" "sweepTimes m g ts av = (ts', av')"
      "0 < m \<longrightarrow> n \<le> maxIterations \<and> ch' = (av' \<noteq> snd (sweepTimes (m - 1) g ts av))"
      "\<forall>k. Suc k < m \<longrightarrow> snd (sweepTimes (Suc k) g ts av) \<noteq> snd (sweepTimes k g ts av)"
      "ch' \<longrightarrow> \<not> n < maxIterations"
      "m = 0 \<longrightarrow> \<not> (True \<and> 0 < maxIterations)"
    by auto
  from m(6) have pos: "0 < n" using m(1) by (simp add: maxIterations_def)
  from m(2) have av': "av' = (?F ^^ n) av" using m(1) snd_sweepTimes[of n g ts av] by simp
  note it = chain_iter[OF ct inv, where g=g]
  have fullN: "\<forall>a. 1 \<le> a \<and> a \<le> N + 1 \<longrightarrow> (?F ^^ N) av a \<noteq> None"
    using it[where n=N] by simp
  have invk: "chainInv N lid ((?F ^^ k) av)" for k using it[where n=k] by simp
  have fixN: "(?F ^^ Suc N) av = (?F ^^ N) av"
    using chain_sweep(3)[OF ct invk[of N] fullN, where g=g] by simp
  have le: "n \<le> N + 1"
  proof (rule ccontr)
    assume "\<not> n \<le> N + 1"
    then have "Suc N < m" using m(1) by simp
    with m(4) have "snd (sweepTimes (Suc N) g ts av) \<noteq> snd (sweepTimes N g ts av)" by blast
    with fixN show False unfolding snd_sweepTimes by blast
  qed
  have ch: "ch' = ((?F ^^ n) av \<noteq> (?F ^^ (n - 1)) av)"
    using m(3) pos m(1) av' by (simp add: snd_sweepTimes)
  have nch: "\<not> ch'"
  proof
    assume c: ch'
    with m(5) le N have "n = Suc N" by simp
    with ch fixN c show False by simp
  qed
  from pos obtain k where k: "n = Suc k" by (cases n) auto
  from nch ch k have "?F ((?F ^^ k) av) = (?F ^^ k) av" by simp
  from chain_fixed_full[OF ct invk[of k] this]
  have "\<forall>a. 1 \<le> a \<and> a \<le> N + 1 \<longrightarrow> (?F ^^ k) av a \<noteq> None" by blast
  from chainInv_dom[OF invk[of k] this] nch ch k av'
  have d: "dom av' = {1..N + 1}" by simp
  from chainInv_dom[OF invk[of N] fullN]
  have "dom (snd (sweepTimes N g ts av)) = {1..N + 1}" by (simp add: snd_sweepTimes)
  with le nch d show ?thesis by simp
qed

lemma chainTools_source:
  assumes "chainTools N lid (src # rest)" and "tool_type src = ''source''"
  shows "chainTools N lid (setStatus g s src # rest)"
proof -
  have "\<not> chainLink i src" for i using assms(2) by (simp add: chainLink_def)
  moreover have "\<not> chainLink i (setStatus g s src)" for i
    using assms(2) by (simp add: chainLink_def)
  ultimately show ?thesis
    using assms unfolding chainTools_def by (simp add: Ball_def Bex_def) blast
qed

text \<open>
  C4. The loop of \<open>computeGearMode\<close> always returns, after \<open>n\<close> sweeps with \<open>1 \<le> n \<le> 100\<close>: its
  result is that of \<open>n\<close> sweeps, each sweep before the last has added an axle value, and the loop
  has stopped either because the last sweep added none or because \<open>n\<close> is the cap of 100. For a
  chain of \<open>N < 100\<close> Couplings in series, the source seeding axle 1, the axles \<open>1 .. N + 1\<close> all
  have a value after \<open>N\<close> sweeps; the loop stops after at most \<open>N + 1\<close> sweeps, the last of which
  finds nothing to add, and for \<open>N \<le> 50\<close> the cap is not reached.
\<close>

theorem propagation_terminates:
  assumes "propagate g ts av True 0 = (ts', av', ch', n)"
  shows "1 \<le> n \<and> n \<le> maxIterations \<and> maxIterations = 100
       \<and> sweepTimes n g ts av = (ts', av')
       \<and> (\<forall>k. Suc k < n \<longrightarrow> snd (sweepTimes (Suc k) g ts av) \<noteq> snd (sweepTimes k g ts av))
       \<and> ch' = (av' \<noteq> snd (sweepTimes (n - 1) g ts av))
       \<and> (ch' \<longrightarrow> n = maxIterations)
       \<and> (chainTools N lid ts \<and> av = [1 \<mapsto> \<lparr>speed = 1, torque = 1, outputBy = ''source''\<rparr>]
            \<and> N < maxIterations \<longrightarrow>
              n \<le> N + 1 \<and> \<not> ch' \<and> dom av' = {1..N + 1}
            \<and> dom (snd (sweepTimes N g ts av)) = {1..N + 1}
            \<and> (N \<le> 50 \<longrightarrow> n < maxIterations))
       \<and> (chainTools N lid ts \<and> N < maxIterations
            \<and> (\<exists>src rest sc scs. ts = src # rest \<and> tool_type src = ''source''
                  \<and> connections src = sc # scs \<and> axleId sc = Some 1) \<longrightarrow>
              (\<exists>tsF avF. computeGearMode g ts = Some (tsF, avF) \<and> dom avF = {1..N + 1}))"
proof -
  from propagate_sweeps[OF assms] obtain m where
    m: "n = m" "sweepTimes m g ts av = (ts', av')"
      "0 < m \<longrightarrow> n \<le> maxIterations \<and> ch' = (av' \<noteq> snd (sweepTimes (m - 1) g ts av))"
      "\<forall>k. Suc k < m \<longrightarrow> snd (sweepTimes (Suc k) g ts av) \<noteq> snd (sweepTimes k g ts av)"
      "ch' \<longrightarrow> \<not> n < maxIterations"
      "m = 0 \<longrightarrow> \<not> (True \<and> 0 < maxIterations)"
    by auto
  from m(6) have pos: "0 < n" using m(1) by (simp add: maxIterations_def)
  have general: "1 \<le> n \<and> n \<le> maxIterations \<and> maxIterations = 100
       \<and> sweepTimes n g ts av = (ts', av')
       \<and> (\<forall>k. Suc k < n \<longrightarrow> snd (sweepTimes (Suc k) g ts av) \<noteq> snd (sweepTimes k g ts av))
       \<and> ch' = (av' \<noteq> snd (sweepTimes (n - 1) g ts av))
       \<and> (ch' \<longrightarrow> n = maxIterations)"
    using m pos by (auto simp: maxIterations_def)
  have chain: "n \<le> N + 1 \<and> \<not> ch' \<and> dom av' = {1..N + 1}
            \<and> dom (snd (sweepTimes N g ts av)) = {1..N + 1}
            \<and> (N \<le> 50 \<longrightarrow> n < maxIterations)"
    if "chainTools N lid ts \<and> av = [1 \<mapsto> \<lparr>speed = 1, torque = 1, outputBy = ''source''\<rparr>]
            \<and> N < maxIterations"
  proof -
    from that have ct: "chainTools N lid ts" and N: "N < maxIterations"
      and av: "av = [1 \<mapsto> \<lparr>speed = 1, torque = 1, outputBy = ''source''\<rparr>]" by blast+
    have inv: "chainInv N lid av" unfolding av by (rule chainInv_seed)
    from chain_propagate[OF ct inv N assms] show ?thesis
      by (auto simp: maxIterations_def)
  qed
  have run: "\<exists>tsF avF. computeGearMode g ts = Some (tsF, avF) \<and> dom avF = {1..N + 1}"
    if "chainTools N lid ts \<and> N < maxIterations
            \<and> (\<exists>src rest sc scs. ts = src # rest \<and> tool_type src = ''source''
                  \<and> connections src = sc # scs \<and> axleId sc = Some 1)"
  proof -
    from that obtain src rest sc scs where
      ct: "chainTools N lid (src # rest)" and N: "N < maxIterations"
      and ts: "ts = src # rest" and src: "tool_type src = ''source''"
      and c: "connections src = sc # scs" "axleId sc = Some 1" by blast
    let ?ts0 = "setStatus g \<lparr>error = None, flagged = False\<rparr> src # rest"
    let ?av0 = "[1 \<mapsto> \<lparr>speed = 1, torque = 1, outputBy = ''source''\<rparr>]"
    obtain tsF avF chF nF where p: "propagate g ?ts0 ?av0 True 0 = (tsF, avF, chF, nF)"
      by (cases "propagate g ?ts0 ?av0 True 0") auto
    from chain_propagate[OF chainTools_source[OF ct src] chainInv_seed N p]
    have "dom avF = {1..N + 1}" by simp
    moreover from p ts c have "computeGearMode g ts = Some (tsF, avF)"
      by (simp add: computeGearMode_def)
    ultimately show ?thesis by blast
  qed
  from general chain run show ?thesis by blast
qed

text \<open>
  The instance: two Couplings in series, listed against the direction of the chain, so that the
  first sweep produces axle 2 only.
\<close>

theorem propagation_terminates_witness:
  "chainTools 2 (\<lambda>i. if i = 1 then ''tool_1'' else ''tool_2'')
     [sourceAxleTool (Some 1),
      couplingTool ''tool_2'' (Some 2) (Some 3) (Some 8) (Some 24) (Some True),
      couplingTool ''tool_1'' (Some 1) (Some 2) (Some 16) (Some 20) (Some True)]
   \<and> snd (snd (snd (propagate 1
        [sourceAxleTool (Some 1),
         couplingTool ''tool_2'' (Some 2) (Some 3) (Some 8) (Some 24) (Some True),
         couplingTool ''tool_1'' (Some 1) (Some 2) (Some 16) (Some 20) (Some True)]
        [1 \<mapsto> \<lparr>speed = 1, torque = 1, outputBy = ''source''\<rparr>] True 0))) \<le> 2 + 1
   \<and> \<not> fst (snd (snd (propagate 1
        [sourceAxleTool (Some 1),
         couplingTool ''tool_2'' (Some 2) (Some 3) (Some 8) (Some 24) (Some True),
         couplingTool ''tool_1'' (Some 1) (Some 2) (Some 16) (Some 20) (Some True)]
        [1 \<mapsto> \<lparr>speed = 1, torque = 1, outputBy = ''source''\<rparr>] True 0)))
   \<and> dom (fst (snd (propagate 1
        [sourceAxleTool (Some 1),
         couplingTool ''tool_2'' (Some 2) (Some 3) (Some 8) (Some 24) (Some True),
         couplingTool ''tool_1'' (Some 1) (Some 2) (Some 16) (Some 20) (Some True)]
        [1 \<mapsto> \<lparr>speed = 1, torque = 1, outputBy = ''source''\<rparr>] True 0))) = {1..2 + 1}"
proof -
  let ?lid = "\<lambda>i::nat. if i = 1 then ''tool_1'' else ''tool_2''"
  let ?ts = "[sourceAxleTool (Some 1),
      couplingTool ''tool_2'' (Some 2) (Some 3) (Some 8) (Some 24) (Some True),
      couplingTool ''tool_1'' (Some 1) (Some 2) (Some 16) (Some 20) (Some True)]"
  let ?av = "[1 \<mapsto> \<lparr>speed = 1, torque = 1, outputBy = ''source''\<rparr>]"
  let ?r = "propagate 1 ?ts ?av True 0"
  have l1: "chainLink 1 (couplingTool ''tool_1'' (Some 1) (Some 2) (Some 16) (Some 20) (Some True))"
    and l2: "chainLink 2 (couplingTool ''tool_2'' (Some 2) (Some 3) (Some 8) (Some 24) (Some True))"
    by (simp_all add: chainLink_def couplingTool_def findConn_def)
  have i: "inj_on ?lid {1..2}"
    by (auto simp: inj_on_def)
  have ct: "chainTools 2 ?lid ?ts"
    unfolding chainTools_def
  proof (intro conjI ballI allI impI)
    fix t assume "t \<in> set ?ts"
    then consider "t = sourceAxleTool (Some 1)"
      | "t = couplingTool ''tool_2'' (Some 2) (Some 3) (Some 8) (Some 24) (Some True)"
      | "t = couplingTool ''tool_1'' (Some 1) (Some 2) (Some 16) (Some 20) (Some True)"
      by auto
    then show "tool_type t = ''source''
        \<or> (\<exists>i. 1 \<le> i \<and> i \<le> 2 \<and> chainLink i t \<and> tool_id t = ?lid i)"
    proof cases
      case 1
      then show ?thesis by (simp add: sourceAxleTool_def)
    next
      case 2
      with l2 show ?thesis by (intro disjI2 exI[of _ 2]) (simp add: couplingTool_def)
    next
      case 3
      with l1 show ?thesis by (intro disjI2 exI[of _ 1]) (simp add: couplingTool_def)
    qed
  next
    fix i :: nat assume "1 \<le> i \<and> i \<le> 2"
    then consider "i = 1" | "i = 2" by linarith
    then show "\<exists>t \<in> set ?ts. chainLink i t \<and> tool_id t = ?lid i"
    proof cases
      case 1
      with l1 show ?thesis by (simp add: couplingTool_def)
    next
      case 2
      with l2 show ?thesis by (simp add: couplingTool_def)
    qed
  next
    show "inj_on ?lid {1..2}" by (rule i)
  next
    fix i :: nat assume "i \<in> {1..2}"
    then show "?lid i \<noteq> ''source''" by simp
  qed
  have p: "?r = (fst ?r, fst (snd ?r), fst (snd (snd ?r)), snd (snd (snd ?r)))" by simp
  have N: "(2::nat) < maxIterations" by (simp add: maxIterations_def)
  note T = propagation_terminates[OF p, where N=2 and lid="?lid"]
  note C = T[THEN conjunct2, THEN conjunct2, THEN conjunct2, THEN conjunct2, THEN conjunct2,
      THEN conjunct2, THEN conjunct2, THEN conjunct1, THEN mp, OF conjI[OF ct conjI[OF refl N]]]
  from C have "snd (snd (snd ?r)) \<le> 2 + 1" and "\<not> fst (snd (snd ?r))"
    and "dom (fst (snd ?r)) = {1..2 + 1}"
    by blast+
  with ct show ?thesis by blast
qed


section \<open>Circle intersection\<close>




















section \<open>Mounting positions of a gear pair\<close>

lemma findMountingPositions_fold:
  "findMountingPositions idist mo mu =
     fold (\<lambda>(x, y). visitOffset idist mo mu x y) (offsets idist mo)
       \<lparr>exact = [], overfit = [], underfit = []\<rparr>"
proof -
  have inner: "fold (\<lambda>j. visitOffset idist mo mu x (real j / 2)) js m
      = fold (\<lambda>(x, y). visitOffset idist mo mu x y) (map (\<lambda>j. (x, real j / 2)) js) m"
    for x js m
    by (induction js arbitrary: m) auto
  have outer: "fold (\<lambda>i m. fold (\<lambda>j. visitOffset idist mo mu (real i / 2) (real j / 2)) [0..<i + 1] m) ks m
      = fold (\<lambda>(x, y). visitOffset idist mo mu x y)
          (concat (map (\<lambda>i. map (\<lambda>j. (real i / 2, real j / 2)) [0..<i + 1]) ks)) m"
    for ks m
    by (induction ks arbitrary: m) (auto simp: inner simp del: upt_Suc)
  show ?thesis
    unfolding findMountingPositions_def offsets_def Let_def by (rule outer)
qed

lemma half_grid_bound: "i < nat (2 * C + 1) \<longleftrightarrow> real i / 2 \<le> of_int C"
proof -
  have "real i / 2 \<le> of_int C \<longleftrightarrow> real_of_int (int i) \<le> real_of_int (2 * C)"
    by (auto simp: field_simps)
  also have "\<dots> \<longleftrightarrow> int i \<le> 2 * C" by (rule of_int_le_iff)
  also have "\<dots> \<longleftrightarrow> i < nat (2 * C + 1)" by linarith
  finally show ?thesis by simp
qed

lemma offsets_pairs:
  "p \<in> set (offsets idist mo) \<longleftrightarrow>
     (\<exists>i j. i < nat (2 * \<lceil>idist + mo + 1\<rceil> + 1) \<and> j < Suc i \<and> p = (real i / 2, real j / 2))"
  unfolding offsets_def
  apply (auto simp del: upt_Suc)
  subgoal for i j by (rule bexI[of _ i]) auto
  done

lemma offsets_set:
  "(x, y) \<in> set (offsets idist mo) \<longleftrightarrow>
     (\<exists>i j. j \<le> i \<and> real i / 2 \<le> of_int \<lceil>idist + mo + 1\<rceil> \<and> x = real i / 2 \<and> y = real j / 2)"
  unfolding offsets_pairs half_grid_bound less_Suc_eq_le prod.inject by blast

lemma visitOffset_exact:
  "set (exact (visitOffset idist mo mu x y m)) =
     set (exact m) \<union>
     (if \<not> sqrt (x * x + y * y) > idist + mo \<and> \<not> sqrt (x * x + y * y) < idist - mu
          \<and> sqrt (x * x + y * y) \<noteq> 0 \<and> \<bar>sqrt (x * x + y * y) - idist\<bar> < 0.0001
      then {\<lparr>pos_x = x, pos_y = y, pos_dist = sqrt (x * x + y * y)\<rparr>} else {})"
  by (simp add: visitOffset_def Let_def)

lemma visitOffset_overfit:
  "set (overfit (visitOffset idist mo mu x y m)) =
     set (overfit m) \<union>
     (if \<not> sqrt (x * x + y * y) > idist + mo \<and> \<not> sqrt (x * x + y * y) < idist - mu
          \<and> sqrt (x * x + y * y) \<noteq> 0 \<and> \<not> \<bar>sqrt (x * x + y * y) - idist\<bar> < 0.0001
          \<and> sqrt (x * x + y * y) - idist > 0
      then {\<lparr>pos_x = x, pos_y = y, pos_dist = sqrt (x * x + y * y)\<rparr>} else {})"
  by (cases "\<bar>sqrt (x * x + y * y) - idist\<bar> < 0.0001")
    (auto simp: visitOffset_def Let_def)

lemma visitOffset_underfit:
  "set (underfit (visitOffset idist mo mu x y m)) =
     set (underfit m) \<union>
     (if \<not> sqrt (x * x + y * y) > idist + mo \<and> \<not> sqrt (x * x + y * y) < idist - mu
          \<and> sqrt (x * x + y * y) \<noteq> 0 \<and> \<not> \<bar>sqrt (x * x + y * y) - idist\<bar> < 0.0001
          \<and> \<not> sqrt (x * x + y * y) - idist > 0
      then {\<lparr>pos_x = x, pos_y = y, pos_dist = sqrt (x * x + y * y)\<rparr>} else {})"
  by (cases "\<bar>sqrt (x * x + y * y) - idist\<bar> < 0.0001")
    (auto simp: visitOffset_def Let_def)

lemma fold_visitOffset_exact:
  "p \<in> set (exact (fold (\<lambda>(x, y). visitOffset idist mo mu x y) xs m)) \<longleftrightarrow>
     p \<in> set (exact m) \<or>
     ((pos_x p, pos_y p) \<in> set xs \<and> pos_dist p = sqrt (pos_x p * pos_x p + pos_y p * pos_y p)
      \<and> \<not> pos_dist p > idist + mo \<and> \<not> pos_dist p < idist - mu \<and> pos_dist p \<noteq> 0
      \<and> \<bar>pos_dist p - idist\<bar> < 0.0001)"
proof (induction xs arbitrary: m)
  case Nil
  show ?case by simp
next
  case (Cons a xs)
  obtain x y where a: "a = (x, y)" by (cases a)
  have p: "p = \<lparr>pos_x = x, pos_y = y, pos_dist = sqrt (x * x + y * y)\<rparr> \<longleftrightarrow>
      pos_x p = x \<and> pos_y p = y \<and> pos_dist p = sqrt (pos_x p * pos_x p + pos_y p * pos_y p)"
    by (cases p) auto
  show ?case
    unfolding a fold_Cons comp_apply prod.case Cons.IH visitOffset_exact
    by (auto simp: p)
qed

lemma fold_visitOffset_overfit:
  "p \<in> set (overfit (fold (\<lambda>(x, y). visitOffset idist mo mu x y) xs m)) \<longleftrightarrow>
     p \<in> set (overfit m) \<or>
     ((pos_x p, pos_y p) \<in> set xs \<and> pos_dist p = sqrt (pos_x p * pos_x p + pos_y p * pos_y p)
      \<and> \<not> pos_dist p > idist + mo \<and> \<not> pos_dist p < idist - mu \<and> pos_dist p \<noteq> 0
      \<and> \<not> \<bar>pos_dist p - idist\<bar> < 0.0001 \<and> pos_dist p - idist > 0)"
proof (induction xs arbitrary: m)
  case Nil
  show ?case by simp
next
  case (Cons a xs)
  obtain x y where a: "a = (x, y)" by (cases a)
  have p: "p = \<lparr>pos_x = x, pos_y = y, pos_dist = sqrt (x * x + y * y)\<rparr> \<longleftrightarrow>
      pos_x p = x \<and> pos_y p = y \<and> pos_dist p = sqrt (pos_x p * pos_x p + pos_y p * pos_y p)"
    by (cases p) auto
  show ?case
    unfolding a fold_Cons comp_apply prod.case Cons.IH visitOffset_overfit
    by (auto simp: p)
qed

lemma fold_visitOffset_underfit:
  "p \<in> set (underfit (fold (\<lambda>(x, y). visitOffset idist mo mu x y) xs m)) \<longleftrightarrow>
     p \<in> set (underfit m) \<or>
     ((pos_x p, pos_y p) \<in> set xs \<and> pos_dist p = sqrt (pos_x p * pos_x p + pos_y p * pos_y p)
      \<and> \<not> pos_dist p > idist + mo \<and> \<not> pos_dist p < idist - mu \<and> pos_dist p \<noteq> 0
      \<and> \<not> \<bar>pos_dist p - idist\<bar> < 0.0001 \<and> \<not> pos_dist p - idist > 0)"
proof (induction xs arbitrary: m)
  case Nil
  show ?case by simp
next
  case (Cons a xs)
  obtain x y where a: "a = (x, y)" by (cases a)
  have p: "p = \<lparr>pos_x = x, pos_y = y, pos_dist = sqrt (x * x + y * y)\<rparr> \<longleftrightarrow>
      pos_x p = x \<and> pos_y p = y \<and> pos_dist p = sqrt (pos_x p * pos_x p + pos_y p * pos_y p)"
    by (cases p) auto
  show ?case
    unfolding a fold_Cons comp_apply prod.case Cons.IH visitOffset_underfit
    by (auto simp: p)
qed

lemma dist_zero_iff:
  "pos_dist p = sqrt (pos_x p * pos_x p + pos_y p * pos_y p) \<Longrightarrow>
     pos_dist p \<noteq> 0 \<longleftrightarrow> (pos_x p, pos_y p) \<noteq> (0, 0)"
  by (auto simp: add_nonneg_eq_0_iff)

lemma exact_iff:
  "p \<in> set (exact (findMountingPositions idist mo mu)) \<longleftrightarrow>
     candidate idist mo mu p \<and> \<bar>pos_dist p - idist\<bar> < 1 / 10000"
  unfolding findMountingPositions_fold fold_visitOffset_exact offsets_set candidate_def
  using dist_zero_iff[of p] by auto

lemma overfit_iff:
  "p \<in> set (overfit (findMountingPositions idist mo mu)) \<longleftrightarrow>
     candidate idist mo mu p \<and> 1 / 10000 \<le> pos_dist p - idist"
  unfolding findMountingPositions_fold fold_visitOffset_overfit offsets_set candidate_def
  using dist_zero_iff[of p] by auto

lemma underfit_iff:
  "p \<in> set (underfit (findMountingPositions idist mo mu)) \<longleftrightarrow>
     candidate idist mo mu p \<and> pos_dist p - idist \<le> - (1 / 10000)"
  unfolding findMountingPositions_fold fold_visitOffset_underfit offsets_set candidate_def
  using dist_zero_iff[of p] by auto

lemma candidate_2:
  assumes "0 \<le> mo" and "0 \<le> mu"
  shows "candidate 2 mo mu \<lparr>pos_x = 2, pos_y = 0, pos_dist = 2\<rparr>"
proof -
  have "2 + mo + 1 \<le> of_int \<lceil>2 + mo + 1\<rceil>" by (rule le_of_int_ceiling)
  with assms have "2 \<le> real_of_int \<lceil>2 + mo + 1\<rceil>" by linarith
  then have c: "real 4 / 2 \<le> of_int \<lceil>2 + mo + 1\<rceil>" by simp
  have "\<exists>i j. j \<le> i \<and> real i / 2 \<le> of_int \<lceil>2 + mo + 1\<rceil> \<and> (2::real) = real i / 2
      \<and> (0::real) = real j / 2"
    using c by (intro exI[of _ 4] exI[of _ 0]) simp
  with assms show ?thesis by (simp add: candidate_def)
qed

lemma candidate_5_2:
  assumes "1 / 2 \<le> mo" and "0 \<le> mu"
  shows "candidate 2 mo mu \<lparr>pos_x = 5 / 2, pos_y = 0, pos_dist = 5 / 2\<rparr>"
proof -
  have "2 + mo + 1 \<le> of_int \<lceil>2 + mo + 1\<rceil>" by (rule le_of_int_ceiling)
  with assms have "5 / 2 \<le> real_of_int \<lceil>2 + mo + 1\<rceil>" by linarith
  then have c: "real 5 / 2 \<le> of_int \<lceil>2 + mo + 1\<rceil>" by simp
  have "\<exists>i j. j \<le> i \<and> real i / 2 \<le> of_int \<lceil>2 + mo + 1\<rceil> \<and> (5 / 2::real) = real i / 2
      \<and> (0::real) = real j / 2"
    using c by (intro exI[of _ 5] exI[of _ 0]) simp
  moreover have "sqrt (5 / 2 * (5 / 2)) = (5 / 2 :: real)"
    using real_sqrt_abs2[of "5 / 2"] by simp
  ultimately show ?thesis using assms by (simp add: candidate_def)
qed

text \<open>
  C9. \<open>findMountingPositions\<close> puts every candidate offset in one list by its distance against
  the ideal distance: exact when the absolute difference is below \<open>0.0001\<close>, overfit when the
  distance is larger (at most \<open>dist + maxOverfit\<close>), underfit when it is smaller (at least
  \<open>dist - maxUnderfit\<close>); the offset \<open>(0, 0)\<close> is in no list. For two gears of 16 teeth the
  ideal distance is 2 and the ratio 1; with tolerances that are not negative \<open>(2, 0)\<close> is exact,
  and with \<open>maxOverfit \<ge> 0.5\<close> the offset \<open>(2.5, 0)\<close> is overfit by \<open>0.5\<close>, which
  \<open>getOverfitColorClass\<close> colours \<open>text-red\<close>.
\<close>

theorem findMountingPositions_classes:
  "(p \<in> set (exact (findMountingPositions idist mo mu)) \<longleftrightarrow>
      candidate idist mo mu p \<and> \<bar>pos_dist p - idist\<bar> < 1 / 10000)
   \<and> (p \<in> set (overfit (findMountingPositions idist mo mu)) \<longleftrightarrow>
      candidate idist mo mu p \<and> 1 / 10000 \<le> pos_dist p - idist)
   \<and> (p \<in> set (underfit (findMountingPositions idist mo mu)) \<longleftrightarrow>
      candidate idist mo mu p \<and> pos_dist p - idist \<le> - (1 / 10000))
   \<and> \<lparr>pos_x = 0, pos_y = 0, pos_dist = d\<rparr>
        \<notin> set (exact (findMountingPositions idist mo mu))
          \<union> set (overfit (findMountingPositions idist mo mu))
          \<union> set (underfit (findMountingPositions idist mo mu))
   \<and> calculateCenterDistance (Teeth 16) 16 = 2 \<and> calculateGearRatio (Teeth 16) 16 = 1
   \<and> (0 \<le> mo \<and> 0 \<le> mu \<longrightarrow>
        \<lparr>pos_x = 2, pos_y = 0, pos_dist = 2\<rparr>
          \<in> set (exact (findMountingPositions (calculateCenterDistance (Teeth 16) 16) mo mu)))
   \<and> (1 / 2 \<le> mo \<and> 0 \<le> mu \<longrightarrow>
        \<lparr>pos_x = 5 / 2, pos_y = 0, pos_dist = 5 / 2\<rparr>
          \<in> set (overfit (findMountingPositions (calculateCenterDistance (Teeth 16) 16) mo mu))
        \<and> 5 / 2 - calculateCenterDistance (Teeth 16) 16 = 1 / 2
        \<and> getOverfitColorClass (5 / 2) (calculateCenterDistance (Teeth 16) 16) = ''text-red'')"
proof -
  have cd: "calculateCenterDistance (Teeth 16) 16 = 2"
    by (simp add: calculateCenterDistance_def)
  have gr: "calculateGearRatio (Teeth 16) 16 = 1"
    by (simp add: calculateGearRatio_def)
  have z: "\<lparr>pos_x = 0, pos_y = 0, pos_dist = d\<rparr>
        \<notin> set (exact (findMountingPositions idist mo mu))
          \<union> set (overfit (findMountingPositions idist mo mu))
          \<union> set (underfit (findMountingPositions idist mo mu))"
    by (simp add: exact_iff overfit_iff underfit_iff candidate_def)
  have e: "0 \<le> mo \<and> 0 \<le> mu \<longrightarrow>
        \<lparr>pos_x = 2, pos_y = 0, pos_dist = 2\<rparr>
          \<in> set (exact (findMountingPositions (calculateCenterDistance (Teeth 16) 16) mo mu))"
    unfolding cd exact_iff using candidate_2[of mo mu] by simp
  have col: "getOverfitColorClass (5 / 2) 2 = ''text-red''"
    by (simp add: getOverfitColorClass_def)
  have o: "1 / 2 \<le> mo \<and> 0 \<le> mu \<longrightarrow>
        \<lparr>pos_x = 5 / 2, pos_y = 0, pos_dist = 5 / 2\<rparr>
          \<in> set (overfit (findMountingPositions (calculateCenterDistance (Teeth 16) 16) mo mu))
        \<and> 5 / 2 - calculateCenterDistance (Teeth 16) 16 = 1 / 2
        \<and> getOverfitColorClass (5 / 2) (calculateCenterDistance (Teeth 16) 16) = ''text-red''"
    unfolding cd overfit_iff using candidate_5_2[of mo mu] col by simp
  from exact_iff[of p idist mo mu] overfit_iff[of p idist mo mu] underfit_iff[of p idist mo mu]
    z cd gr e o
  show ?thesis by blast
qed

text \<open>
  The instance: the default tolerances \<open>0.2\<close> and \<open>0.1\<close> for the exact offset, the tolerance
  \<open>0.5\<close> for the overfit one, which the default \<open>0.2\<close> leaves out.
\<close>

theorem findMountingPositions_classes_witness:
  "\<lparr>pos_x = 2, pos_y = 0, pos_dist = 2\<rparr>
      \<in> set (exact (findMountingPositions (calculateCenterDistance (Teeth 16) 16) (1 / 5) (1 / 10)))
   \<and> \<lparr>pos_x = 5 / 2, pos_y = 0, pos_dist = 5 / 2\<rparr>
      \<in> set (overfit (findMountingPositions (calculateCenterDistance (Teeth 16) 16) (1 / 2) (1 / 10)))
   \<and> getOverfitColorClass (5 / 2) (calculateCenterDistance (Teeth 16) 16) = ''text-red''
   \<and> \<lparr>pos_x = 5 / 2, pos_y = 0, pos_dist = 5 / 2\<rparr>
      \<notin> set (overfit (findMountingPositions (calculateCenterDistance (Teeth 16) 16) (1 / 5) (1 / 10)))"
proof -
  note A = findMountingPositions_classes[where mo = "1 / 5" and mu = "1 / 10"]
  note B = findMountingPositions_classes[where mo = "1 / 2" and mu = "1 / 10"]
  have hA: "0 \<le> (1 / 5 :: real) \<and> 0 \<le> (1 / 10 :: real)" by simp
  have hB: "1 / 2 \<le> (1 / 2 :: real) \<and> 0 \<le> (1 / 10 :: real)" by simp
  note A6 = A[THEN conjunct2, THEN conjunct2, THEN conjunct2, THEN conjunct2, THEN conjunct2,
      THEN conjunct2, THEN conjunct1, THEN mp, OF hA]
  note B7 = B[THEN conjunct2, THEN conjunct2, THEN conjunct2, THEN conjunct2, THEN conjunct2,
      THEN conjunct2, THEN conjunct2, THEN mp, OF hB]
  have 1: "\<lparr>pos_x = 2, pos_y = 0, pos_dist = 2\<rparr>
      \<in> set (exact (findMountingPositions (calculateCenterDistance (Teeth 16) 16) (1 / 5) (1 / 10)))"
    by (rule A6)
  have 2: "\<lparr>pos_x = 5 / 2, pos_y = 0, pos_dist = 5 / 2\<rparr>
      \<in> set (overfit (findMountingPositions (calculateCenterDistance (Teeth 16) 16) (1 / 2) (1 / 10)))
     \<and> getOverfitColorClass (5 / 2) (calculateCenterDistance (Teeth 16) 16) = ''text-red''"
    using B7 by blast
  have cd: "calculateCenterDistance (Teeth 16) 16 = 2"
    by (simp add: calculateCenterDistance_def)
  have 3: "\<lparr>pos_x = 5 / 2, pos_y = 0, pos_dist = 5 / 2\<rparr>
      \<notin> set (overfit (findMountingPositions (calculateCenterDistance (Teeth 16) 16) (1 / 5) (1 / 10)))"
    unfolding A[where p = "\<lparr>pos_x = 5 / 2, pos_y = 0, pos_dist = 5 / 2\<rparr>"
        and idist = 2, THEN conjunct2, THEN conjunct1] cd
    by (simp add: candidate_def)
  from 1 2 3 show ?thesis by blast
qed


section \<open>The loops of the liftarm enumerator as one pass over the rows\<close>

lemma fold_concat_map:
  assumes "\<And>x st. f x st = fold g (c x) st"
  shows "fold f xs st = fold g (concat (map c xs)) st"
  by (induction xs arbitrary: st) (simp_all add: assms)

lemma studBody_fold:
  "studBody rl opts T I aLen bLen sNum st =
     fold (pushRow rl) (case stud opts T I aLen bLen sNum of None \<Rightarrow> [] | Some r \<Rightarrow> [r]) st"
  by (simp add: studBody_def split: option.splits)

lemma intersectionBody_fold:
  "intersectionBody rl opts T aLen bLen I st =
     fold (pushRow rl)
       (if point_x I < 0 \<or> point_y I < 0 then []
        else if removeYGreaterX opts \<and> point_y I > point_x I then []
        else concat (map (\<lambda>sNum. case stud opts T I aLen bLen sNum of None \<Rightarrow> [] | Some r \<Rightarrow> [r])
               (frange (step opts) aLen (step opts)))) st"
proof -
  have "fold (studBody rl opts T I aLen bLen) xs st =
      fold (pushRow rl)
        (concat (map (\<lambda>sNum. case stud opts T I aLen bLen sNum of None \<Rightarrow> [] | Some r \<Rightarrow> [r]) xs)) st"
    for xs
    by (rule fold_concat_map) (rule studBody_fold)
  then show ?thesis by (simp add: intersectionBody_def)
qed

lemma targetBody_fold:
  "targetBody rl opts tx ty st = fold (pushRow rl) (rowsAt opts tx ty) st"
  unfolding targetBody_def rowsAt_def
  by (rule fold_concat_map, rule fold_concat_map, rule fold_concat_map)
     (rule intersectionBody_fold)

lemma txLoop_fold:
  "txLoop rl opts txs st =
     fold (pushRow rl)
       (concat (map (\<lambda>tx. concat (map (rowsAt opts tx)
                  (frange (- (maxA opts + maxB opts)) (maxA opts + maxB opts) (step opts))))
          (visited opts txs))) st"
proof (induction txs arbitrary: st)
  case Nil
  show ?case by simp
next
  case (Cons tx txs)
  have t: "fold (targetBody rl opts tx) ys st = fold (pushRow rl) (concat (map (rowsAt opts tx) ys)) st"
    for ys st
    by (rule fold_concat_map) (rule targetBody_fold)
  show ?case
    by (simp add: Let_def t Cons.IH)
qed

lemma fold_pushRow_False:
  "fold (pushRow False) xs (results, m) = (results @ xs, m)"
  by (induction xs arbitrary: results) (simp_all add: pushRow_def)


section \<open>The \<open>removeLarger\<close> pass\<close>

lemma scanInv_empty: "scanInv rs [] ([], Map.empty)"
  by (simp add: scanInv_def)

lemma scanInv_step:
  assumes inv: "scanInv rs xs st" and x: "x \<in> set rs" and sub: "set xs \<subseteq> set rs"
    and st: "stepped rs"
  shows "scanInv rs (xs @ [x]) (pushRow True x st)"
proof -
  obtain results m where s: "st = (results, m)" by (cases st)
  let ?k = "keyRemoveLarger x" and ?v = "row_aLen x + row_bLen x"
  from inv have i1: "\<And>k. m k = None \<Longrightarrow> \<forall>r \<in> set xs. keyRemoveLarger r \<noteq> k"
    and i2: "\<And>k v. m k = Some v \<Longrightarrow>
            (\<exists>r \<in> set xs. keyRemoveLarger r = k \<and> row_aLen r + row_bLen r = v)
          \<and> (\<forall>r \<in> set xs. keyRemoveLarger r = k \<longrightarrow> v \<le> row_aLen r + row_bLen r)"
    and i3: "filter (minimalIn rs) results = filter (minimalIn rs) xs"
    and i4: "set results \<subseteq> set xs"
    unfolding scanInv_def s by auto
  show ?thesis
  proof (cases "m ?k")
    case None
    then have p: "pushRow True x st = (results @ [x], m(?k \<mapsto> ?v))"
      by (simp add: pushRow_def s)
    from i1[OF None] have no: "\<forall>r \<in> set xs. keyRemoveLarger r \<noteq> ?k" .
    show ?thesis
      unfolding p scanInv_def prod.case
    proof (intro conjI allI impI)
      fix k assume "(m(?k \<mapsto> ?v)) k = None"
      then have "k \<noteq> ?k" "m k = None" by (auto split: if_splits)
      with i1 show "\<forall>r \<in> set (xs @ [x]). keyRemoveLarger r \<noteq> k" by auto
    next
      fix k v assume a: "(m(?k \<mapsto> ?v)) k = Some v"
      show "\<exists>r \<in> set (xs @ [x]). keyRemoveLarger r = k \<and> row_aLen r + row_bLen r = v"
        using a i2[of k v] by (cases "k = ?k") auto
      show "\<forall>r \<in> set (xs @ [x]). keyRemoveLarger r = k \<longrightarrow> v \<le> row_aLen r + row_bLen r"
        using a i2[of k v] no by (cases "k = ?k") auto
    next
      show "filter (minimalIn rs) (results @ [x]) = filter (minimalIn rs) (xs @ [x])"
        using i3 by simp
      show "set (results @ [x]) \<subseteq> set (xs @ [x])" using i4 by auto
    qed
  next
    case (Some v)
    from i2[OF Some] obtain r0 where r0: "r0 \<in> set xs" "keyRemoveLarger r0 = ?k"
      "row_aLen r0 + row_bLen r0 = v"
      and least: "\<forall>r \<in> set xs. keyRemoveLarger r = ?k \<longrightarrow> v \<le> row_aLen r + row_bLen r"
      by auto
    from r0 sub have r0s: "r0 \<in> set rs" by auto
    show ?thesis
    proof (cases "?v \<ge> v + 0.001")
      case True
      then have p: "pushRow True x st = (results, m)"
        using Some by (simp add: pushRow_def s)
      have "\<not> minimalIn rs x"
        unfolding minimalIn_def using r0s r0(2,3) True by (intro notI) fastforce
      then have f: "filter (minimalIn rs) (xs @ [x]) = filter (minimalIn rs) xs" by simp
      show ?thesis
        unfolding p scanInv_def prod.case
      proof (intro conjI allI impI)
        fix k assume "m k = None"
        then have "k \<noteq> ?k" using Some by auto
        with i1[OF \<open>m k = None\<close>] show "\<forall>r \<in> set (xs @ [x]). keyRemoveLarger r \<noteq> k" by auto
      next
        fix k w assume a: "m k = Some w"
        show "\<exists>r \<in> set (xs @ [x]). keyRemoveLarger r = k \<and> row_aLen r + row_bLen r = w"
          using i2[OF a] by auto
        show "\<forall>r \<in> set (xs @ [x]). keyRemoveLarger r = k \<longrightarrow> w \<le> row_aLen r + row_bLen r"
          using i2[OF a] a Some True by auto
      next
        show "filter (minimalIn rs) results = filter (minimalIn rs) (xs @ [x])"
          using i3 f by simp
        show "set results \<subseteq> set (xs @ [x])" using i4 by auto
      qed
    next
      case False
      then have p: "pushRow True x st = (results @ [x], m(?k \<mapsto> ?v))"
        using Some by (simp add: pushRow_def s)
      from False r0(3) have "?v < row_aLen r0 + row_bLen r0 + 0.001" by simp
      with st r0s x have "?v \<le> row_aLen r0 + row_bLen r0"
        unfolding stepped_def by blast
      with r0(3) have le: "?v \<le> v" by simp
      show ?thesis
        unfolding p scanInv_def prod.case
      proof (intro conjI allI impI)
        fix k assume "(m(?k \<mapsto> ?v)) k = None"
        then have "k \<noteq> ?k" "m k = None" by (auto split: if_splits)
        with i1 show "\<forall>r \<in> set (xs @ [x]). keyRemoveLarger r \<noteq> k" by auto
      next
        fix k w assume a: "(m(?k \<mapsto> ?v)) k = Some w"
        show "\<exists>r \<in> set (xs @ [x]). keyRemoveLarger r = k \<and> row_aLen r + row_bLen r = w"
          using a i2[of k w] by (cases "k = ?k") auto
        show "\<forall>r \<in> set (xs @ [x]). keyRemoveLarger r = k \<longrightarrow> w \<le> row_aLen r + row_bLen r"
        proof (cases "k = ?k")
          case True
          with a have "w = ?v" by simp
          with least le True show ?thesis by fastforce
        next
          case False
          with a i2[of k w] show ?thesis by auto
        qed
      next
        show "filter (minimalIn rs) (results @ [x]) = filter (minimalIn rs) (xs @ [x])"
          using i3 by simp
        show "set (results @ [x]) \<subseteq> set (xs @ [x])" using i4 by auto
      qed
    qed
  qed
qed

lemma scanInv_fold:
  assumes "scanInv rs xs st" and "set xs \<subseteq> set rs" and "set ys \<subseteq> set rs" and "stepped rs"
  shows "scanInv rs (xs @ ys) (fold (pushRow True) ys st)"
  using assms
proof (induction ys arbitrary: xs st)
  case Nil
  then show ?case by simp
next
  case (Cons y ys)
  from Cons.prems have y: "y \<in> set rs" and ys: "set ys \<subseteq> set rs" by auto
  have 1: "scanInv rs (xs @ [y]) (pushRow True y st)"
    by (rule scanInv_step[OF Cons.prems(1) y Cons.prems(2) Cons.prems(4)])
  have 2: "set (xs @ [y]) \<subseteq> set rs" using Cons.prems(2) y by auto
  from Cons.IH[OF 1 2 ys Cons.prems(4)] show ?case by simp
qed

lemma scan_result:
  assumes st: "stepped rs" and f: "fold (pushRow True) rs ([], Map.empty) = (results, m)"
  shows "filter (\<lambda>r. \<not> (case m (keyRemoveLarger r) of
                           Some v \<Rightarrow> row_aLen r + row_bLen r \<ge> v + 0.001
                         | None \<Rightarrow> False)) results
         = filter (minimalIn rs) rs"
proof -
  from scanInv_fold[OF scanInv_empty _ subset_refl st] f
  have inv: "scanInv rs rs (results, m)" by simp
  then have i1: "\<And>k. m k = None \<Longrightarrow> \<forall>r \<in> set rs. keyRemoveLarger r \<noteq> k"
    and i2: "\<And>k v. m k = Some v \<Longrightarrow>
            (\<exists>r \<in> set rs. keyRemoveLarger r = k \<and> row_aLen r + row_bLen r = v)
          \<and> (\<forall>r \<in> set rs. keyRemoveLarger r = k \<longrightarrow> v \<le> row_aLen r + row_bLen r)"
    and i3: "filter (minimalIn rs) results = filter (minimalIn rs) rs"
    and i4: "set results \<subseteq> set rs"
    unfolding scanInv_def by auto
  have "(\<not> (case m (keyRemoveLarger r) of
               Some v \<Rightarrow> row_aLen r + row_bLen r \<ge> v + 0.001 | None \<Rightarrow> False))
        = minimalIn rs r" if r: "r \<in> set results" for r
  proof -
    from r i4 have rs: "r \<in> set rs" by auto
    with i1[of "keyRemoveLarger r"] obtain v where v: "m (keyRemoveLarger r) = Some v"
      by (cases "m (keyRemoveLarger r)") auto
    from i2[OF v] obtain r0 where r0: "r0 \<in> set rs" "keyRemoveLarger r0 = keyRemoveLarger r"
      "row_aLen r0 + row_bLen r0 = v"
      and least: "\<forall>r' \<in> set rs. keyRemoveLarger r' = keyRemoveLarger r \<longrightarrow>
          v \<le> row_aLen r' + row_bLen r'"
      by auto
    have "\<not> row_aLen r + row_bLen r \<ge> v + 0.001 \<longleftrightarrow> row_aLen r + row_bLen r \<le> v"
    proof
      assume "\<not> row_aLen r + row_bLen r \<ge> v + 0.001"
      then have "row_aLen r + row_bLen r < row_aLen r0 + row_bLen r0 + 0.001"
        using r0(3) by simp
      with st r0(1) rs have "row_aLen r + row_bLen r \<le> row_aLen r0 + row_bLen r0"
        unfolding stepped_def by blast
      with r0(3) show "row_aLen r + row_bLen r \<le> v" by simp
    next
      assume "row_aLen r + row_bLen r \<le> v"
      then show "\<not> row_aLen r + row_bLen r \<ge> v + 0.001" by simp
    qed
    also have "row_aLen r + row_bLen r \<le> v \<longleftrightarrow> minimalIn rs r"
      unfolding minimalIn_def using least r0 by force
    finally show ?thesis by (simp add: v)
  qed
  then have "filter (\<lambda>r. \<not> (case m (keyRemoveLarger r) of
                           Some v \<Rightarrow> row_aLen r + row_bLen r \<ge> v + 0.001
                         | None \<Rightarrow> False)) results
       = filter (minimalIn rs) results"
    by (intro filter_cong refl)
  with i3 show ?thesis by simp
qed

lemma frange_mem: "x \<in> set (frange lo hi st) \<Longrightarrow> \<exists>k. x = lo + real k * st"
  by (auto simp: frange_def split: if_splits)

lemma stud_lens:
  "stud opts T I aLen bLen sNum = Some r \<Longrightarrow> row_aLen r = aLen \<and> row_bLen r = bLen"
  unfolding stud_def Let_def by (cases r) (simp split: if_splits)

lemma rowsAt_mem:
  assumes "r \<in> set (rowsAt opts tx ty)"
  shows "\<exists>aLen \<in> set (frange (minA opts) (maxA opts) (step opts)).
         \<exists>bLen \<in> set (frange (minB opts) (maxB opts) (step opts)).
           row_aLen r = aLen \<and> row_bLen r = bLen"
proof -
  from assms obtain aLen bLen I sNum where
    "aLen \<in> set (frange (minA opts) (maxA opts) (step opts))"
    "bLen \<in> set (frange (minB opts) (maxB opts) (step opts))"
    "stud opts \<lparr>point_x = tx, point_y = ty\<rparr> I aLen bLen sNum = Some r"
    unfolding rowsAt_def by (auto split: if_splits option.splits)
  then show ?thesis using stud_lens by blast
qed

lemma allRows_lens:
  assumes "r \<in> set (allRows opts)"
  shows "\<exists>i j. row_aLen r = minA opts + real i * step opts
             \<and> row_bLen r = minB opts + real j * step opts"
proof -
  from assms obtain tx ty where "r \<in> set (rowsAt opts tx ty)"
    unfolding allRows_def by auto
  from rowsAt_mem[OF this] show ?thesis using frange_mem by metis
qed

lemma step_grid:
  assumes "real n' * step opts < real n * step opts + 0.001"
  shows "real n' * step opts \<le> real n * step opts"
proof (cases "halfStuds opts")
  case True
  then have s: "step opts = 1 / 2" by (simp add: step_def)
  have "(0.001::real) \<le> 1 / 2" by simp
  with assms have "real n' < real n + 1" unfolding s by linarith
  then have "real n' < real (n + 1)" by simp
  then have "n' < n + 1" by (simp only: of_nat_less_iff)
  then have "real n' \<le> real n" by simp
  then show ?thesis unfolding s by simp
next
  case False
  then have s: "step opts = 1" by (simp add: step_def)
  have "(0.001::real) \<le> 1 / 2" by simp
  with assms have "real n' < real n + 1" unfolding s by linarith
  then have "real n' < real (n + 1)" by simp
  then have "n' < n + 1" by (simp only: of_nat_less_iff)
  then have "real n' \<le> real n" by simp
  then show ?thesis unfolding s by simp
qed

lemma stepped_allRows: "stepped (allRows opts)"
  unfolding stepped_def
proof (intro ballI impI)
  fix r r'
  assume r: "r \<in> set (allRows opts)" and r': "r' \<in> set (allRows opts)"
    and l: "row_aLen r' + row_bLen r' < row_aLen r + row_bLen r + 0.001"
  from allRows_lens[OF r] obtain i j where
    a: "row_aLen r = minA opts + real i * step opts" "row_bLen r = minB opts + real j * step opts"
    by auto
  from allRows_lens[OF r'] obtain i' j' where
    b: "row_aLen r' = minA opts + real i' * step opts"
       "row_bLen r' = minB opts + real j' * step opts"
    by auto
  from l have "real (i' + j') * step opts < real (i + j) * step opts + 0.001"
    unfolding a b by (simp add: algebra_simps)
  from step_grid[OF this] show "row_aLen r' + row_bLen r' \<le> row_aLen r + row_bLen r"
    unfolding a b by (simp add: algebra_simps)
qed

lemma calculatePositions_False:
  "calculatePositions hs False ryx mnA mxA mnB mxB mnD mxD icd =
     sort_key sortKey (allRows \<lparr>halfStuds = hs, removeYGreaterX = ryx, minA = mnA, maxA = mxA,
       minB = mnB, maxB = mxB, minDecimal = mnD, maxDecimal = mxD,
       includeComplementaryDecimal = icd\<rparr>)"
  by (simp add: calculatePositions_def Let_def txLoop_fold fold_pushRow_False allRows_def)

lemma calculatePositions_True:
  "calculatePositions hs True ryx mnA mxA mnB mxB mnD mxD icd =
     sort_key sortKey
       (filter (minimalIn (allRows \<lparr>halfStuds = hs, removeYGreaterX = ryx, minA = mnA,
            maxA = mxA, minB = mnB, maxB = mxB, minDecimal = mnD, maxDecimal = mxD,
            includeComplementaryDecimal = icd\<rparr>))
          (allRows \<lparr>halfStuds = hs, removeYGreaterX = ryx, minA = mnA, maxA = mxA,
            minB = mnB, maxB = mxB, minDecimal = mnD, maxDecimal = mxD,
            includeComplementaryDecimal = icd\<rparr>))"
proof -
  let ?opts = "\<lparr>halfStuds = hs, removeYGreaterX = ryx, minA = mnA, maxA = mxA,
            minB = mnB, maxB = mxB, minDecimal = mnD, maxDecimal = mxD,
            includeComplementaryDecimal = icd\<rparr>"
  obtain results m where f: "fold (pushRow True) (allRows ?opts) ([], Map.empty) = (results, m)"
    by (cases "fold (pushRow True) (allRows ?opts) ([], Map.empty)")
  have t: "txLoop True ?opts (frange (- (mxA + mxB)) (mxA + mxB) (step ?opts)) ([], Map.empty)
      = (results, m)"
    unfolding txLoop_fold using f by (simp add: allRows_def)
  show ?thesis
    unfolding calculatePositions_def Let_def t prod.case
    using scan_result[OF stepped_allRows f] by simp
qed

lemma minimalIn_set: "set rs = set rs' \<Longrightarrow> minimalIn rs = minimalIn rs'"
  by (simp add: minimalIn_def fun_eq_iff)

text \<open>
  C10. With \<open>removeLarger\<close> set, \<open>calculatePositions\<close> returns the rows it returns without the
  option, in the same order, that have the least sum \<open>aLen + bLen\<close> among the rows with their
  key \<open>keyRemoveLarger\<close> (the two coordinates of \<open>S\<close> with three decimals): every row whose sum
  is least for its key is kept, and no other.
\<close>

theorem removeLarger_keeps_minimal:
  "calculatePositions hs True ryx mnA mxA mnB mxB mnD mxD icd =
     filter (\<lambda>r. \<forall>r' \<in> set (calculatePositions hs False ryx mnA mxA mnB mxB mnD mxD icd).
                   keyRemoveLarger r' = keyRemoveLarger r \<longrightarrow>
                   row_aLen r + row_bLen r \<le> row_aLen r' + row_bLen r')
       (calculatePositions hs False ryx mnA mxA mnB mxB mnD mxD icd)"
proof -
  let ?rows = "allRows \<lparr>halfStuds = hs, removeYGreaterX = ryx, minA = mnA, maxA = mxA,
            minB = mnB, maxB = mxB, minDecimal = mnD, maxDecimal = mxD,
            includeComplementaryDecimal = icd\<rparr>"
  have "filter (minimalIn (sort_key sortKey ?rows)) (sort_key sortKey ?rows)
      = filter (minimalIn ?rows) (sort_key sortKey ?rows)"
    using minimalIn_set[of "sort_key sortKey ?rows" ?rows] by simp
  also have "\<dots> = sort_key sortKey (filter (minimalIn ?rows) ?rows)"
    by (rule filter_sort)
  finally show ?thesis
    unfolding calculatePositions_True calculatePositions_False minimalIn_def by simp
qed

lemma frange_3: "frange (- 3) 3 1 = [- 3, - 2, - 1, 0, 1, 2, 3]"
  by (simp add: frange_def upt_rec)

lemma frange_1_1: "frange 1 1 1 = [1]"
  by (simp add: frange_def)

lemma frange_1_2: "frange 1 2 1 = [1, 2]"
  by (simp add: frange_def upt_rec)

lemma distanceTo_axis: "distanceTo origin \<lparr>point_x = x, point_y = 0\<rparr> = \<bar>x\<bar>"
  by (simp add: distanceTo_def origin_def)

lemma tangent_2: "Point_circleIntersections origin 1 \<lparr>point_x = 2, point_y = 0\<rparr> 1
    = [\<lparr>point_x = 1, point_y = 0\<rparr>]"
  unfolding Point_circleIntersections_def distanceTo_axis Let_def
  by (simp add: origin_def)

lemma tangent_3: "Point_circleIntersections origin 1 \<lparr>point_x = 3, point_y = 0\<rparr> 2
    = [\<lparr>point_x = 1, point_y = 0\<rparr>]"
  unfolding Point_circleIntersections_def distanceTo_axis Let_def
  by (simp add: origin_def)

lemma secant_1: "Point_circleIntersections origin 1 \<lparr>point_x = 1, point_y = 0\<rparr> 1 \<noteq> []"
  unfolding Point_circleIntersections_def distanceTo_axis Let_def
  by (simp add: origin_def)


lemma stud_key:
  "stud opts T I aLen bLen sNum = Some r \<Longrightarrow>
     keyRemoveLarger r = (formatNumber (point_x I * (sNum / aLen)) 3,
                          formatNumber (point_y I * (sNum / aLen)) 3)"
  unfolding stud_def Let_def by (cases r) (simp split: if_splits)

lemma concat_mapI: "x \<in> set xs \<Longrightarrow> r \<in> set (c x) \<Longrightarrow> r \<in> set (concat (map c xs))"
  by auto

lemma allRows_memI:
  assumes "tx \<in> set (visited opts
              (frange (- (maxA opts + maxB opts)) (maxA opts + maxB opts) (step opts)))"
    and "ty \<in> set (frange (- (maxA opts + maxB opts)) (maxA opts + maxB opts) (step opts))"
    and "aLen \<in> set (frange (minA opts) (maxA opts) (step opts))"
    and "bLen \<in> set (frange (minB opts) (maxB opts) (step opts))"
    and "I \<in> set (Point_circleIntersections origin aLen \<lparr>point_x = tx, point_y = ty\<rparr> bLen)"
    and "\<not> (point_x I < 0 \<or> point_y I < 0)"
    and "\<not> (removeYGreaterX opts \<and> point_y I > point_x I)"
    and "sNum \<in> set (frange (step opts) aLen (step opts))"
    and "stud opts \<lparr>point_x = tx, point_y = ty\<rparr> I aLen bLen sNum = Some r"
  shows "r \<in> set (allRows opts)"
proof -
  have s: "r \<in> set (case stud opts \<lparr>point_x = tx, point_y = ty\<rparr> I aLen bLen sNum of
                   None \<Rightarrow> [] | Some r \<Rightarrow> [r])"
    by (simp add: assms(9))
  have "r \<in> set (rowsAt opts tx ty)"
    unfolding rowsAt_def
    apply (rule concat_mapI[OF assms(3)])
    apply (rule concat_mapI[OF assms(4)])
    apply (rule concat_mapI[OF assms(5)])
    apply (simp only: assms(6,7) if_False)
    apply (rule concat_mapI[OF assms(8)])
    apply (rule s)
    done
  with assms(1,2) show ?thesis
    unfolding allRows_def by auto
qed


lemma foundAnyForTxI:
  assumes "ty \<in> set (frange (- (maxA opts + maxB opts)) (maxA opts + maxB opts) (step opts))"
    and "aLen \<in> set (frange (minA opts) (maxA opts) (step opts))"
    and "bLen \<in> set (frange (minB opts) (maxB opts) (step opts))"
    and "Point_circleIntersections origin aLen \<lparr>point_x = tx, point_y = ty\<rparr> bLen \<noteq> []"
  shows "foundAnyForTx opts tx"
  unfolding foundAnyForTx_def list_ex_iff using assms by blast

lemma formatNumber_1: "formatNumber 1 3 = (False, 1000, 3)"
  by (simp add: formatNumber_def)

lemma formatNumber_0: "formatNumber 0 3 = (False, 0, 3)"
  by (simp add: formatNumber_def)

text \<open>
  The instance: whole studs, \<open>aLen = 1\<close> and \<open>bLen\<close> from 1 to 2. The stud \<open>S = (1, 0)\<close> is reached
  with the lengths \<open>(1, 1)\<close> for the target \<open>(2, 0)\<close> and with \<open>(1, 2)\<close> for the target \<open>(3, 0)\<close>; with
  \<open>removeLarger\<close> the first pair is returned for this key and the second is not.
\<close>

theorem removeLarger_keeps_minimal_witness:
  "(1, 1, (False, 1000, 3), (False, 0, 3))
      \<in> (\<lambda>r. (row_aLen r, row_bLen r, keyRemoveLarger r)) `
          set (calculatePositions False True False 1 1 1 2 0 1 False)
   \<and> (1, 2, (False, 1000, 3), (False, 0, 3))
      \<in> (\<lambda>r. (row_aLen r, row_bLen r, keyRemoveLarger r)) `
          set (calculatePositions False False False 1 1 1 2 0 1 False)
   \<and> (1, 2, (False, 1000, 3), (False, 0, 3))
      \<notin> (\<lambda>r. (row_aLen r, row_bLen r, keyRemoveLarger r)) `
          set (calculatePositions False True False 1 1 1 2 0 1 False)"
proof -
  let ?opts = "\<lparr>halfStuds = False, removeYGreaterX = False, minA = 1, maxA = 1, minB = 1,
      maxB = 2, minDecimal = 0, maxDecimal = 1, includeComplementaryDecimal = False\<rparr>"
  let ?I = "\<lparr>point_x = 1, point_y = 0\<rparr>"
  let ?all = "calculatePositions False False False 1 1 1 2 0 1 False"
  let ?min = "calculatePositions False True False 1 1 1 2 0 1 False"
  let ?key = "((False, 1000 :: nat, 3 :: nat), (False, 0 :: nat, 3 :: nat))"
  have st: "step ?opts = 1" by (simp add: step_def)
  have f1: "foundAnyForTx ?opts 1"
    by (rule foundAnyForTxI[where ty = 0 and aLen = 1 and bLen = 1])
       (simp_all add: st frange_3 frange_1_1 frange_1_2 secant_1)
  have f2: "foundAnyForTx ?opts 2"
    by (rule foundAnyForTxI[where ty = 0 and aLen = 1 and bLen = 1])
       (simp_all add: st frange_3 frange_1_1 frange_1_2 tangent_2)
  have f3: "foundAnyForTx ?opts 3"
    by (rule foundAnyForTxI[where ty = 0 and aLen = 1 and bLen = 2])
       (simp_all add: st frange_3 frange_1_1 frange_1_2 tangent_3)
  obtain r1 where r1: "stud ?opts \<lparr>point_x = 2, point_y = 0\<rparr> ?I 1 1 1 = Some r1"
    by (simp add: stud_def Let_def rem1_def)
  obtain r2 where r2: "stud ?opts \<lparr>point_x = 3, point_y = 0\<rparr> ?I 1 2 1 = Some r2"
    by (simp add: stud_def Let_def rem1_def)
  have m1: "r1 \<in> set (allRows ?opts)"
    by (rule allRows_memI[where tx = 2 and ty = 0 and aLen = 1 and bLen = 1 and I = ?I
          and sNum = 1, OF _ _ _ _ _ _ _ _ r1])
       (simp_all add: st frange_3 frange_1_1 frange_1_2 f1 f2 f3 tangent_2)
  have m2: "r2 \<in> set (allRows ?opts)"
    by (rule allRows_memI[where tx = 3 and ty = 0 and aLen = 1 and bLen = 2 and I = ?I
          and sNum = 1, OF _ _ _ _ _ _ _ _ r2])
       (simp_all add: st frange_3 frange_1_1 frange_1_2 f1 f2 f3 tangent_3)
  have p1: "row_aLen r1 = 1" "row_bLen r1 = 1" "keyRemoveLarger r1 = ?key"
    using stud_lens[OF r1] stud_key[OF r1] by (simp_all add: formatNumber_1 formatNumber_0)
  have p2: "row_aLen r2 = 1" "row_bLen r2 = 2" "keyRemoveLarger r2 = ?key"
    using stud_lens[OF r2] stud_key[OF r2] by (simp_all add: formatNumber_1 formatNumber_0)
  have all: "set ?all = set (allRows ?opts)"
    by (simp add: calculatePositions_False)
  have lo: "2 \<le> row_aLen r + row_bLen r" if "r \<in> set ?all" for r
  proof -
    from that all allRows_lens[of r ?opts] obtain i j where
      "row_aLen r = 1 + real i * 1" "row_bLen r = 1 + real j * 1"
      by (auto simp: st)
    then show ?thesis by simp
  qed
  note T = removeLarger_keeps_minimal[of False False 1 1 1 2 0 1 False]
  have mem: "r \<in> set ?min \<longleftrightarrow>
      r \<in> set ?all \<and> (\<forall>r' \<in> set ?all. keyRemoveLarger r' = keyRemoveLarger r \<longrightarrow>
          row_aLen r + row_bLen r \<le> row_aLen r' + row_bLen r')" for r
    by (subst T) simp
  have a: "r1 \<in> set ?min"
    unfolding mem using m1 all lo p1 by auto
  have b: "r2 \<in> set ?all" using m2 all by simp
  have c: "r \<notin> set ?min" if "row_aLen r = 1" "row_bLen r = 2" "keyRemoveLarger r = ?key" for r
  proof
    assume "r \<in> set ?min"
    then have "\<forall>r' \<in> set ?all. keyRemoveLarger r' = keyRemoveLarger r \<longrightarrow>
          row_aLen r + row_bLen r \<le> row_aLen r' + row_bLen r'"
      unfolding mem by simp
    moreover have "r1 \<in> set ?all" using m1 all by simp
    ultimately have "row_aLen r + row_bLen r \<le> row_aLen r1 + row_bLen r1"
      using p1(3) that(3) by auto
    with that p1 show False by simp
  qed
  have 1: "(1, 1, ?key) \<in> (\<lambda>r. (row_aLen r, row_bLen r, keyRemoveLarger r)) ` set ?min"
    using a p1 by (intro image_eqI[of _ _ r1]) simp_all
  have 2: "(1, 2, ?key) \<in> (\<lambda>r. (row_aLen r, row_bLen r, keyRemoveLarger r)) ` set ?all"
    using b p2 by (intro image_eqI[of _ _ r2]) simp_all
  have 3: "(1, 2, ?key) \<notin> (\<lambda>r. (row_aLen r, row_bLen r, keyRemoveLarger r)) ` set ?min"
    using c by auto
  from 1 2 3 show ?thesis by blast
qed

end
